theory Spec2Isabelle
  imports Main "HOL-Library.Word"
begin

unbundle bit_operations_syntax

section \<open>POSIX child process execution (leatherman, execution/src/posix/execution.cc)\<close>

text \<open>
  The development embeds the POSIX implementation of \<open>leatherman::execution::execute\<close>.
  Everything the operating system decides (results of system calls, the value of the
  volatile flag set by the SIGALRM handler, the parent's environment) is an input of the
  model, collected in the record \<open>world\<close>; every system call the code issues is
  appended to a trace of events. Logging calls are left out.
\<close>

subsection \<open>Environment builder\<close>

text \<open>\<open>boost::starts_with(input, test)\<close>.\<close>

definition starts_with :: "string \<Rightarrow> string \<Rightarrow> bool" where
  "starts_with input test = (take (length test) input = test)"

text \<open>
  A \<open>std::map<string, string>\<close> is represented by the list of its entries in iteration
  order; \<open>count\<close> looks a key up.
\<close>

type_synonym string_map = "(string \<times> string) list"

definition count_key :: "string_map \<Rightarrow> string \<Rightarrow> nat" where
  "count_key m k = (if k \<in> set (map fst m) then 1 else 0)"

text \<open>The loop over \<open>environ\<close> (lines 357-363), with the vector \<open>result\<close> threaded through.\<close>

fun merge_environ :: "string list \<Rightarrow> string list \<Rightarrow> string list" where
  "merge_environ [] result = result"
| "merge_environ (var # vars) result =
     (if starts_with var ''LC_ALL='' \<or> starts_with var ''LANG=''
      then merge_environ vars result
      else merge_environ vars (result @ [var]))"

text \<open>The loop over the given environment (lines 368-370): \<open>format("%1%=%2%")\<close>.\<close>

fun add_given :: "string_map \<Rightarrow> string list \<Rightarrow> string list" where
  "add_given [] result = result"
| "add_given (kvp # rest) result =
     add_given rest (result @ [fst kvp @ ''='' @ snd kvp])"

text \<open>
  \<open>create_environment\<close> (lines 351-381). The global \<open>environ\<close> is the third argument;
  \<open>None\<close> is a null pointer, for \<open>environ\<close> as for \<open>environment\<close>.
\<close>

definition create_environment ::
  "string_map option \<Rightarrow> bool \<Rightarrow> string list option \<Rightarrow> string list" where
  "create_environment environment merge environ =
     (let result = [];
          result = (case environ of
                      Some vars \<Rightarrow> if merge then merge_environ vars result else result
                    | None \<Rightarrow> result);
          result = (case environment of
                      Some m \<Rightarrow> add_given m result
                    | None \<Rightarrow> result);
          result = (if environment = None \<or> count_key (the environment) ''LC_ALL'' = 0
                    then result @ [''LC_ALL=C''] else result);
          result = (if environment = None \<or> count_key (the environment) ''LANG'' = 0
                    then result @ [''LANG=C''] else result)
      in result)"

text \<open>
  What a child sees for a variable is decided by its C library, not by this code.
  \<open>getenv_first\<close> is the lookup of POSIX \<open>getenv\<close> as libc implements it: the block is
  scanned from the front and the first entry \<open>NAME=...\<close> wins. \<open>getenv_last\<close> is the
  other convention (the last entry wins), used by programs that import the block into a
  table of their own.
\<close>

fun getenv_first :: "string list \<Rightarrow> string \<Rightarrow> string option" where
  "getenv_first [] var = None"
| "getenv_first (e # es) var =
     (if starts_with e (var @ ''='') then Some (drop (length var + 1) e)
      else getenv_first es var)"

definition getenv_last :: "string list \<Rightarrow> string \<Rightarrow> string option" where
  "getenv_last block var = getenv_first (rev block) var"

subsection \<open>Results, exceptions and the trace of system calls\<close>

text \<open>The \<open>result\<close> structure returned by \<open>execute\<close>: success, output, error and exit code
  (the fields \<open>output\<close> and \<open>error\<close> are suffixed, \<open>output\<close> being a keyword).\<close>

record result =
  success :: bool
  output_text :: string
  error_text :: string
  exit_code :: int

text \<open>
  The exceptions thrown in this file. \<open>timeout_exception\<close> carries the child's
  identifier, the two child exceptions carry the status and the captured streams.
\<close>

datatype exception =
    Execution_exception string
  | Timeout_exception string nat
  | Child_exit_exception string int string string
  | Child_signal_exception string int string string

text \<open>A system call fails with an \<open>errno\<close> or succeeds with a value.\<close>

datatype 'a sysres = Failed int | Ok 'a

definition EINTR :: int where "EINTR = 4"
definition SIGKILL :: int where "SIGKILL = 9"
definition EXIT_FAILURE :: int where "EXIT_FAILURE = 1"
definition STDIN_FILENO :: int where "STDIN_FILENO = 0"
definition STDOUT_FILENO :: int where "STDOUT_FILENO = 1"
definition STDERR_FILENO :: int where "STDERR_FILENO = 2"

text \<open>What the kernel answers to \<open>select\<close>, \<open>read\<close> and \<open>write\<close> in the multiplexing loop.\<close>

datatype select_result = Select_failed int | Select_ready "int list" "int list"
datatype read_result = Read_failed int | Read_data string
datatype write_result = Write_failed int | Written nat

datatype event =
    Ev_pipe "(int \<times> int) sysres"
  | Ev_open_dev_null int
  | Ev_vfork int
  | Ev_setpgid "unit sysres"
  | Ev_dup2 int int "unit sysres"
  | Ev_write_diagnostic int string "unit sysres"
  | Ev_close_above_stderr nat
  | Ev_execve string "string list" "string list" "int option"
  | Ev_exit int
  | Ev_sigaction "unit sysres"
  | Ev_setitimer nat "unit sysres"
  | Ev_timer_reset
  | Ev_timer_handler
  | Ev_command_timedout bool
  | Ev_select "int list" "int list" bool select_result
  | Ev_read string int read_result
  | Ev_callback string string bool
  | Ev_write int string write_result
  | Ev_kill int int
  | Ev_waitpid int "32 word sysres"

subsection \<open>The operating system as seen by one call\<close>

record file_stat =
  st_mode :: "32 word"
  st_uid :: nat
  st_gid :: nat

text \<open>
  One turn of the multiplexing loop: whether \<open>SIGALRM\<close> is delivered during the turn,
  that is after the loop condition has read \<open>command_timedout\<close> and before it reads it
  again, and the kernel's answers to the calls of the turn (\<open>read\<close> by descriptor).
\<close>

record iteration =
  it_alarm :: bool
  it_select :: select_result
  it_read :: "int \<Rightarrow> read_result"
  it_write :: write_result

record world =
  path_is_absolute :: "string \<Rightarrow> bool"
  path_append :: "string \<Rightarrow> string \<Rightarrow> string"
  is_regular_file :: "string \<Rightarrow> bool"
  stat_r :: "string \<Rightarrow> file_stat option"
  geteuid :: nat
  getgid :: nat
  getegid :: nat
  getgroups_num :: int
  getgroups_r :: "nat list"
  search_paths :: "string list"
  environ :: "string list option"
  strerror :: "int \<Rightarrow> string"
  char_is_signed :: bool
  sc_open_max_defined :: bool
  sysconf_open_max :: int
  rlimit_nofile_defined :: bool
  getrlimit_nofile :: "nat sysres"
  open_max_macro :: "nat option"
  pipe_stdin :: "(int \<times> int) sysres"
  pipe_stdout :: "(int \<times> int) sysres"
  pipe_stderr :: "(int \<times> int) sysres"
  open_dev_null :: int
  vfork_r :: int
  vfork_errno :: int
  setpgid_r :: "unit sysres"
  dup2_stdin_r :: "unit sysres"
  dup2_stdout_r :: "unit sysres"
  dup2_stderr_r :: "unit sysres"
  write_diagnostic_r :: "unit sysres"
  execve_r :: "int option"
  sigaction_r :: "unit sysres"
  setitimer_r :: "unit sysres"
  iterations :: "iteration list"
  waitpid_errno :: "int option"
  program_wstatus :: "32 word"

subsection \<open>Formatting\<close>

definition digit_char :: "nat \<Rightarrow> char" where
  "digit_char d = char_of (48 + d)"

fun show_nat :: "nat \<Rightarrow> string" where
  "show_nat n = (if n < 10 then [digit_char n] else show_nat (n div 10) @ [digit_char (n mod 10)])"

declare show_nat.simps [simp del]

definition show_int :: "int \<Rightarrow> string" where
  "show_int i = (if i < 0 then ''-'' @ show_nat (nat (- i)) else show_nat (nat i))"

text \<open>\<open>format_error\<close> (lines 72-78), with \<open>errno\<close> passed explicitly.\<close>

definition format_error :: "world \<Rightarrow> string \<Rightarrow> int \<Rightarrow> string" where
  "format_error w message err =
     (if message = [] then strerror w err @ '' ('' @ show_int err @ '')''
      else message @ '': '' @ strerror w err @ '' ('' @ show_int err @ '').'')"

subsection \<open>Path search\<close>

definition S_IXUSR :: "32 word" where "S_IXUSR = 0x40"
definition S_IXGRP :: "32 word" where "S_IXGRP = 0x8"
definition S_IXOTH :: "32 word" where "S_IXOTH = 0x1"

text \<open>\<open>get_groups\<close> (lines 80-95): the second \<open>getgroups\<close> call fills the buffer.\<close>

definition get_groups :: "world \<Rightarrow> nat list" where
  "get_groups w =
     (if getgroups_num w < 1 then []
      else if length (getgroups_r w) \<noteq> nat (getgroups_num w) then []
      else getgroups_r w)"

definition is_group_member :: "world \<Rightarrow> nat \<Rightarrow> bool" where
  "is_group_member w gid =
     (if getgid w = gid \<or> getegid w = gid then True
      else gid \<in> set (get_groups w))"

definition is_executable :: "world \<Rightarrow> string \<Rightarrow> bool" where
  "is_executable w path =
     (case stat_r w path of
        None \<Rightarrow> False
      | Some fs \<Rightarrow>
          if geteuid w = 0 then st_mode fs AND (S_IXUSR OR S_IXGRP OR S_IXOTH) \<noteq> 0
          else if st_uid fs = geteuid w then st_mode fs AND S_IXUSR \<noteq> 0
          else if is_group_member w (st_gid fs) then st_mode fs AND S_IXGRP \<noteq> 0
          else st_mode fs AND S_IXOTH \<noteq> 0)"

text \<open>The loop of \<open>which\<close> over the search directories (lines 147-152).\<close>

fun which_directories :: "world \<Rightarrow> string \<Rightarrow> string list \<Rightarrow> string" where
  "which_directories w file [] = []"
| "which_directories w file (dir # dirs) =
     (let p = path_append w dir file
      in if is_regular_file w p \<and> is_executable w p then p
         else which_directories w file dirs)"

definition which :: "world \<Rightarrow> string \<Rightarrow> string list \<Rightarrow> string" where
  "which w file directories =
     (if path_is_absolute w file
      then (if is_regular_file w file \<and> is_executable w file then file else [])
      else which_directories w file directories)"

subsection \<open>The request\<close>

datatype execution_options =
    trim_output
  | merge_environment
  | redirect_stderr_to_stdout
  | redirect_stderr_to_null
  | throw_on_nonzero_exit
  | throw_on_signal

text \<open>
  The arguments of \<open>execute\<close> (\<open>file\<close> is \<open>file_name\<close> here). Null pointers are \<open>None\<close>. The two caller callbacks and the
  trim option reach this file only through \<open>process_streams\<close>, see below.
\<close>

record request =
  file_name :: string
  arguments :: "string list option"
  input :: "string option"
  environment :: "string_map option"
  options :: "execution_options set"
  timeout :: nat

text \<open>
  Modelled from the spec: \<open>process_streams\<close> is defined outside this file. It hands two
  callbacks to the reading code, which accumulate what they are given (calling the
  caller's callbacks on the way) and answer whether reading should go on, and it returns
  the captured output and error text. Its accumulated state has type \<open>'s\<close>.
\<close>

record 's stream_processor =
  sp_init :: 's
  process_stdout :: "string \<Rightarrow> 's \<Rightarrow> bool \<times> 's"
  process_stderr :: "string \<Rightarrow> 's \<Rightarrow> bool \<times> 's"
  sp_captured :: "'s \<Rightarrow> string \<times> string"

subsection \<open>Child launcher\<close>

text \<open>
  \<open>get_max_descriptor_limit\<close> (lines 36-63). Its three parts are compiled only where the
  macros \<open>_SC_OPEN_MAX\<close>, \<open>RLIMIT_NOFILE\<close> and \<open>OPEN_MAX\<close> are defined by the headers
  this file includes, which the world records.
\<close>

definition get_max_descriptor_limit :: "world \<Rightarrow> nat" where
  "get_max_descriptor_limit w =
     (if sc_open_max_defined w \<and> sysconf_open_max w > 0 then nat (sysconf_open_max w)
      else case (if rlimit_nofile_defined w then getrlimit_nofile w else Failed 0) of
             Ok cur \<Rightarrow> cur
           | Failed e \<Rightarrow> (case open_max_macro w of Some n \<Rightarrow> n | None \<Rightarrow> 256))"

text \<open>
  A failing step of \<open>exec_child\<close> writes a diagnostic to \<open>err\<close> and returns. The value is
  \<open>errno\<close> at that point: the one of the failed call, or the one of the write if that
  fails too.
\<close>

definition child_failed :: "world \<Rightarrow> int \<Rightarrow> string \<Rightarrow> int \<Rightarrow> int \<times> event list" where
  "child_failed w err message e =
     (case write_diagnostic_r w of Failed e' \<Rightarrow> e' | Ok u \<Rightarrow> e,
      [Ev_write_diagnostic err message (write_diagnostic_r w)])"

text \<open>
  \<open>exec_child\<close> (lines 279-330), run in the vfork'd child. \<open>Some errno\<close>: the function
  returned, which it does only on failure; \<open>None\<close>: \<open>execve\<close> replaced the image.
\<close>

definition exec_child ::
  "world \<Rightarrow> int \<Rightarrow> int \<Rightarrow> int \<Rightarrow> string \<Rightarrow> string list \<Rightarrow> string list
     \<Rightarrow> int option \<times> event list" where
  "exec_child w in_fd out_fd err program argv envp =
     (case setpgid_r w of
        Failed e \<Rightarrow>
          (let (e', evs) = child_failed w err ''failed to setpgid.'' e
           in (Some e', [Ev_setpgid (Failed e)] @ evs))
      | Ok u0 \<Rightarrow>
     (case dup2_stdin_r w of
        Failed e \<Rightarrow>
          (let (e', evs) = child_failed w err ''failed to redirect child stdin.'' e
           in (Some e', [Ev_setpgid (Ok ()), Ev_dup2 in_fd STDIN_FILENO (Failed e)] @ evs))
      | Ok u1 \<Rightarrow>
     (case dup2_stdout_r w of
        Failed e \<Rightarrow>
          (let (e', evs) = child_failed w err ''failed to redirect child stdout.'' e
           in (Some e', [Ev_setpgid (Ok ()), Ev_dup2 in_fd STDIN_FILENO (Ok ()),
                         Ev_dup2 out_fd STDOUT_FILENO (Failed e)] @ evs))
      | Ok u2 \<Rightarrow>
     (case dup2_stderr_r w of
        Failed e \<Rightarrow>
          (let (e', evs) = child_failed w err ''failed to redirect child stderr.'' e
           in (Some e', [Ev_setpgid (Ok ()), Ev_dup2 in_fd STDIN_FILENO (Ok ()),
                         Ev_dup2 out_fd STDOUT_FILENO (Ok ()),
                         Ev_dup2 err STDERR_FILENO (Failed e)] @ evs))
      | Ok u3 \<Rightarrow>
          (execve_r w,
           [Ev_setpgid (Ok ()), Ev_dup2 in_fd STDIN_FILENO (Ok ()),
            Ev_dup2 out_fd STDOUT_FILENO (Ok ()), Ev_dup2 err STDERR_FILENO (Ok ()),
            Ev_close_above_stderr (get_max_descriptor_limit w),
            Ev_execve program argv envp (execve_r w)])))))"

text \<open>What became of the child branch: it runs the program, or it left through \<open>_exit\<close>.\<close>

datatype launch = Image_replaced | Child_exited int

text \<open>
  \<open>create_child\<close> (lines 383-403). \<open>vfork_r\<close> is the value \<open>vfork\<close> returns in the parent
  (negative on failure); the parent resumes once the child branch, which sees 0, has
  replaced its image or has exited.
\<close>

definition create_child ::
  "world \<Rightarrow> int \<Rightarrow> int \<Rightarrow> int \<Rightarrow> string \<Rightarrow> string list \<Rightarrow> string list
     \<Rightarrow> (exception + int \<times> launch) \<times> event list" where
  "create_child w in_fd out_fd err program argv envp =
     (let child = vfork_r w in
      if child < 0
      then (Inl (Execution_exception
                   (format_error w ''failed to fork child process'' (vfork_errno w))),
            [Ev_vfork child])
      else (case exec_child w in_fd out_fd err program argv envp of
              (None, evs) \<Rightarrow> (Inr (child, Image_replaced), [Ev_vfork child] @ evs)
            | (Some errno, evs) \<Rightarrow>
                (let code = (if errno = 0 then EXIT_FAILURE else errno)
                 in (Inr (child, Child_exited code),
                     [Ev_vfork child] @ evs @ [Ev_exit code]))))"

text \<open>\<open>std::string::c_str\<close> read as a C string, and \<open>to_exec_arg\<close> (lines 334-347).\<close>

definition c_str :: "string \<Rightarrow> string" where
  "c_str s = takeWhile (\<lambda>c. c \<noteq> CHR 0x00) s"

definition to_exec_arg :: "string list option \<Rightarrow> string option \<Rightarrow> string list" where
  "to_exec_arg argument first =
     (case first of Some f \<Rightarrow> [c_str f] | None \<Rightarrow> []) @
     (case argument of Some a \<Rightarrow> map c_str a | None \<Rightarrow> [])"

subsection \<open>Reaper\<close>

text \<open>
  The wait status macros of \<open><sys/wait.h>\<close> (the encoding shared by Linux, the BSDs and
  OS X): the low seven bits hold the terminating signal, 0 for a normal exit and 0x7f for
  a stopped process; bits 8 to 15 hold the exit status.
\<close>

definition WTERMSIG :: "32 word \<Rightarrow> 32 word" where
  "WTERMSIG s = s AND 0x7f"

definition WEXITSTATUS :: "32 word \<Rightarrow> 32 word" where
  "WEXITSTATUS s = drop_bit 8 (s AND 0xff00)"

definition WIFEXITED :: "32 word \<Rightarrow> bool" where
  "WIFEXITED s = (WTERMSIG s = 0)"

definition WIFSIGNALED :: "32 word \<Rightarrow> bool" where
  "WIFSIGNALED s = (WTERMSIG s \<noteq> 0x7f \<and> WTERMSIG s \<noteq> 0)"

text \<open>The status the kernel records for \<open>_exit(code)\<close>: the low eight bits of the code.\<close>

definition W_EXITCODE :: "int \<Rightarrow> 32 word" where
  "W_EXITCODE code = push_bit 8 (word_of_int code AND 0xff)"

text \<open>
  \<open>static_cast<char>\<close> of an \<open>int\<close>, read back as an \<open>int\<close>. Whether plain \<open>char\<close> is signed
  is the platform's choice (it is on x86 and on OS X).
\<close>

definition static_cast_char :: "bool \<Rightarrow> 32 word \<Rightarrow> int" where
  "static_cast_char is_signed x =
     (if is_signed then sint (ucast x :: 8 word) else uint (ucast x :: 8 word))"

text \<open>
  \<open>waitpid(child, &status, 0)\<close>: it fails, or it stores the status of the child, which for
  a child that left through \<open>_exit\<close> is the one of that exit.
\<close>

definition waitpid_r :: "world \<Rightarrow> launch \<Rightarrow> 32 word sysres" where
  "waitpid_r w l =
     (case waitpid_errno w of
        Some e \<Rightarrow> Failed e
      | None \<Rightarrow> Ok (case l of Child_exited code \<Rightarrow> W_EXITCODE code
                           | Image_replaced \<Rightarrow> program_wstatus w))"

text \<open>The variables \<open>success\<close>, \<open>signaled\<close> and \<open>status\<close> the reaper assigns.\<close>

record reaped =
  r_success :: bool
  r_signaled :: bool
  r_status :: int

text \<open>The reaper (lines 481-500), entered with \<open>success = false\<close>, \<open>signaled = false\<close>, \<open>status = 0\<close>.\<close>

definition reaper :: "world \<Rightarrow> launch \<Rightarrow> bool \<Rightarrow> int \<Rightarrow> reaped \<times> event list" where
  "reaper w l kill_child child =
     (let kill_evs = (if kill_child then [Ev_kill (- child) SIGKILL] else []);
          r = waitpid_r w l;
          evs = kill_evs @ [Ev_waitpid child r]
      in case r of
           Failed e \<Rightarrow> (\<lparr>r_success = False, r_signaled = False, r_status = 0\<rparr>, evs)
         | Ok raw \<Rightarrow>
             if WIFEXITED raw
             then (let status = static_cast_char (char_is_signed w) (WEXITSTATUS raw)
                   in (\<lparr>r_success = (status = 0), r_signaled = False, r_status = status\<rparr>, evs))
             else if WIFSIGNALED raw
             then (\<lparr>r_success = False, r_signaled = True,
                    r_status = static_cast_char (char_is_signed w) (WTERMSIG raw)\<rparr>, evs)
             else (\<lparr>r_success = False, r_signaled = False, r_status = sint raw\<rparr>, evs))"

subsection \<open>I/O multiplexer\<close>

text \<open>The \<open>pipe\<close> structure (lines 157-170); the callback works on the state of \<open>process_streams\<close>.\<close>

record 's pipe =
  name :: string
  descriptor :: int
  buffer :: string
  callback :: "string \<Rightarrow> 's \<Rightarrow> bool \<times> 's"

text \<open>
  What changes from turn to turn of \<open>rw_from_child\<close>: the array of pipes, the pair
  \<open>input\<close> (descriptor and text still to write), the state behind the callbacks, and the
  flag \<open>command_timedout\<close> (line 65), which the signal handler sets.
\<close>

record 's rw_state =
  pipes :: "'s pipe list"
  input_first :: int
  input_second :: string
  streams :: 's
  command_timedout :: bool

text \<open>\<open>timer_handler\<close> (lines 67-70), and its run in a turn in which the signal arrives.\<close>

definition timer_handler :: "'s rw_state \<Rightarrow> 's rw_state" where
  "timer_handler st = st\<lparr>command_timedout := True\<rparr>"

definition deliver :: "iteration \<Rightarrow> 's rw_state \<Rightarrow> 's rw_state" where
  "deliver it st = (if it_alarm it then timer_handler st else st)"

definition delivered :: "iteration \<Rightarrow> event list" where
  "delivered it = (if it_alarm it then [Ev_timer_handler] else [])"

definition resize :: "nat \<Rightarrow> string \<Rightarrow> string" where
  "resize n s = take n s @ replicate (n - length s) (CHR 0x00)"

text \<open>
  The first loop over the pipes (lines 182-192) does three things for every open pipe:
  it enters the descriptor in \<open>read_set\<close>, raises \<open>max\<close>, and resizes the buffer.
\<close>

definition prepare_pipe :: "'s pipe \<Rightarrow> 's pipe" where
  "prepare_pipe p = (if descriptor p = - 1 then p else p\<lparr>buffer := resize 4096 (buffer p)\<rparr>)"

definition read_set_of :: "'s pipe list \<Rightarrow> int list" where
  "read_set_of ps = map descriptor (filter (\<lambda>p. descriptor p \<noteq> - 1) ps)"

definition max_descriptor :: "'s pipe list \<Rightarrow> int \<Rightarrow> int" where
  "max_descriptor ps input_fd =
     (let mx = fold (\<lambda>p m. if descriptor p \<noteq> - 1 \<and> descriptor p > m then descriptor p else m)
                 ps (- 1)
      in if input_fd \<noteq> - 1 \<and> input_fd > mx then input_fd else mx)"

definition size_t_of_pid :: "int \<Rightarrow> nat" where
  "size_t_of_pid child = nat (child mod 2 ^ 64)"

datatype 's pipe_step = Pipe_continue "'s pipe" 's | Pipe_return 's | Pipe_throw exception

text \<open>
  The body of the second loop over the pipes (lines 223-248). \<open>read\<close> transfers at most
  \<open>buffer.size()\<close> bytes of what the kernel holds; no byte means the pipe has closed.
  The bytes read fill the front of the buffer, \<open>resize(count)\<close> cuts it to them, and the
  buffer is handed to the callback.
\<close>

definition read_pipe ::
  "iteration \<Rightarrow> int list \<Rightarrow> 's pipe \<Rightarrow> 's \<Rightarrow> 's pipe_step \<times> event list" where
  "read_pipe it read_set p s =
     (if descriptor p = - 1 \<or> descriptor p \<notin> set read_set then (Pipe_continue p s, [])
      else case it_read it (descriptor p) of
        Read_failed e \<Rightarrow>
          if e \<noteq> EINTR
          then (Pipe_throw (Execution_exception ''failed to read child output.''),
                [Ev_read (name p) (descriptor p) (Read_failed e)])
          else (Pipe_continue p s, [Ev_read (name p) (descriptor p) (Read_failed e)])
      | Read_data d \<Rightarrow>
          (let data = take (length (buffer p)) d;
               count = length data;
               ev = Ev_read (name p) (descriptor p) (Read_data data)
           in if count = 0 then (Pipe_continue (p\<lparr>descriptor := - 1\<rparr>) s, [ev])
              else (let p' = p\<lparr>buffer := data\<rparr>;
                        (go, s') = callback p' (buffer p') s
                    in if \<not> go then (Pipe_return s', [ev, Ev_callback (name p') (buffer p') False])
                       else (Pipe_continue p' s', [ev, Ev_callback (name p') (buffer p') True]))))"

datatype 's for_result = For_done "'s pipe list" 's | For_return 's | For_throw exception

fun read_pipes ::
  "iteration \<Rightarrow> int list \<Rightarrow> 's pipe list \<Rightarrow> 's \<Rightarrow> 's for_result \<times> event list" where
  "read_pipes it read_set [] s = (For_done [] s, [])"
| "read_pipes it read_set (p # ps) s =
     (case read_pipe it read_set p s of
        (Pipe_throw e, evs) \<Rightarrow> (For_throw e, evs)
      | (Pipe_return s', evs) \<Rightarrow> (For_return s', evs)
      | (Pipe_continue p' s', evs) \<Rightarrow>
          (case read_pipes it read_set ps s' of
             (For_throw e, evs') \<Rightarrow> (For_throw e, evs @ evs')
           | (For_return s'', evs') \<Rightarrow> (For_return s'', evs @ evs')
           | (For_done ps' s'', evs') \<Rightarrow> (For_done (p' # ps') s'', evs @ evs')))"

datatype 's step = Step_continue "'s rw_state" | Step_return 's | Step_throw exception

text \<open>
  Writing the input (lines 251-271). \<open>write\<close> accepts at most the bytes offered; \<open>input = {}\<close>
  drops the descriptor and the text.
\<close>

definition write_input ::
  "iteration \<Rightarrow> int list \<Rightarrow> 's rw_state \<Rightarrow> 's step \<times> event list" where
  "write_input it write_set st =
     (if input_first st \<noteq> - 1 \<and> input_first st \<in> set write_set
      then (case it_write it of
              Write_failed e \<Rightarrow>
                if e \<noteq> EINTR
                then (Step_throw (Execution_exception ''failed to write child input.''),
                      [Ev_write (input_first st) (input_second st) (Write_failed e)])
                else (Step_continue st,
                      [Ev_write (input_first st) (input_second st) (Write_failed e)])
            | Written n \<Rightarrow>
                (let count = min n (length (input_second st));
                     ev = Ev_write (input_first st) (input_second st) (Written count)
                 in if count = 0
                    then (Step_continue (st\<lparr>input_first := - 1, input_second := []\<rparr>), [ev])
                    else (Step_continue (st\<lparr>input_second := drop count (input_second st)\<rparr>),
                          [ev])))
      else (Step_continue st, []))"

text \<open>
  One turn of the \<open>while\<close> loop of \<open>rw_from_child\<close> (lines 177-272), from the test of
  \<open>command_timedout\<close> on. Leaving the loop by that test throws the timeout exception
  (line 276). After \<open>select\<close> the two sets hold the descriptors that are ready.
\<close>

definition rw_iteration ::
  "int \<Rightarrow> nat \<Rightarrow> iteration \<Rightarrow> 's rw_state \<Rightarrow> 's step \<times> event list" where
  "rw_iteration child tmo it st =
     (if command_timedout st
      then (Step_throw (Timeout_exception
                          (''command timed out after '' @ show_nat tmo @ '' seconds.'')
                          (size_t_of_pid child)),
            [Ev_command_timedout True])
      else
        (let ps = map prepare_pipe (pipes st);
             read_set = read_set_of ps;
             write_set = (if input_first st \<noteq> - 1 then [input_first st] else []);
             mx = max_descriptor ps (input_first st)
         in if mx = - 1 then (Step_return (streams st), [Ev_command_timedout False])
            else
              (let pre = [Ev_command_timedout False,
                          Ev_select read_set write_set (tmo \<noteq> 0) (it_select it)]
               in case it_select it of
                    Select_failed e \<Rightarrow>
                      if e \<noteq> EINTR
                      then (Step_throw (Execution_exception ''failed to read child output.''), pre)
                      else (Step_continue (st\<lparr>pipes := ps\<rparr>), pre)
                  | Select_ready ready_r ready_w \<Rightarrow>
                      (let rs = filter (\<lambda>fd. fd \<in> set ready_r) read_set;
                           ws = filter (\<lambda>fd. fd \<in> set ready_w) write_set
                       in if rs = [] \<and> ws = [] then (Step_continue (st\<lparr>pipes := ps\<rparr>), pre)
                          else (case read_pipes it rs ps (streams st) of
                                  (For_throw e, evs) \<Rightarrow> (Step_throw e, pre @ evs)
                                | (For_return s', evs) \<Rightarrow> (Step_return s', pre @ evs)
                                | (For_done ps' s', evs) \<Rightarrow>
                                    (let (r, evs') =
                                       write_input it ws (st\<lparr>pipes := ps', streams := s'\<rparr>)
                                     in (r, pre @ evs @ evs')))))))"

text \<open>
  How \<open>rw_from_child\<close> ends: it returns, it throws, or the script of kernel answers is
  used up while the loop is still running (nothing is claimed about what follows). A
  signal that arrives during a turn is listed after the calls of that turn.
\<close>

datatype 's loop_exit = Loop_return 's | Loop_throw exception | Loop_pending

fun rw_from_child ::
  "int \<Rightarrow> 's rw_state \<Rightarrow> nat \<Rightarrow> iteration list \<Rightarrow> 's loop_exit \<times> event list" where
  "rw_from_child child st tmo [] = (Loop_pending, [])"
| "rw_from_child child st tmo (it # its) =
     (case rw_iteration child tmo it st of
        (Step_throw e, evs) \<Rightarrow> (Loop_throw e, evs @ delivered it)
      | (Step_return s, evs) \<Rightarrow> (Loop_return s, evs @ delivered it)
      | (Step_continue st', evs) \<Rightarrow>
          (let (r, evs') = rw_from_child child (deliver it st') tmo its
           in (r, evs @ delivered it @ evs')))"

subsection \<open>The orchestrator\<close>

record descriptors =
  stdin_read :: int
  stdin_write :: int
  stdout_read :: int
  stdout_write :: int
  stderr_read :: int
  stderr_write :: int
  dev_null :: int
  child_stderr :: int

text \<open>Creating the pipes and choosing the child's stderr (lines 426-457).\<close>

definition open_pipes :: "world \<Rightarrow> request \<Rightarrow> (exception + descriptors) \<times> event list" where
  "open_pipes w req =
     (case pipe_stdin w of
        Failed e \<Rightarrow>
          (Inl (Execution_exception
                  (format_error w ''failed to allocate pipe for stdin redirection'' e)),
           [Ev_pipe (pipe_stdin w)])
      | Ok (r0, w0) \<Rightarrow>
     (case pipe_stdout w of
        Failed e \<Rightarrow>
          (Inl (Execution_exception
                  (format_error w ''failed to allocate pipe for stdout redirection'' e)),
           [Ev_pipe (pipe_stdin w), Ev_pipe (pipe_stdout w)])
      | Ok (r1, w1) \<Rightarrow>
          if redirect_stderr_to_stdout \<in> options req
          then (Inr \<lparr>stdin_read = r0, stdin_write = w0, stdout_read = r1, stdout_write = w1,
                     stderr_read = - 1, stderr_write = - 1, dev_null = - 1, child_stderr = w1\<rparr>,
                [Ev_pipe (pipe_stdin w), Ev_pipe (pipe_stdout w)])
          else if redirect_stderr_to_null \<in> options req
          then (Inr \<lparr>stdin_read = r0, stdin_write = w0, stdout_read = r1, stdout_write = w1,
                     stderr_read = - 1, stderr_write = - 1, dev_null = open_dev_null w,
                     child_stderr = open_dev_null w\<rparr>,
                [Ev_pipe (pipe_stdin w), Ev_pipe (pipe_stdout w),
                 Ev_open_dev_null (open_dev_null w)])
          else
            (case pipe_stderr w of
               Failed e \<Rightarrow>
                 (Inl (Execution_exception
                         (format_error w ''failed to allocate pipe for stderr redirection'' e)),
                  [Ev_pipe (pipe_stdin w), Ev_pipe (pipe_stdout w), Ev_pipe (pipe_stderr w)])
             | Ok (r2, w2) \<Rightarrow>
                 (Inr \<lparr>stdin_read = r0, stdin_write = w0, stdout_read = r1, stdout_write = w1,
                       stderr_read = r2, stderr_write = w2, dev_null = - 1, child_stderr = w2\<rparr>,
                  [Ev_pipe (pipe_stdin w), Ev_pipe (pipe_stdout w), Ev_pipe (pipe_stderr w)]))))"

text \<open>Arming the timer (lines 505-526); \<open>timer_reset\<close> runs when the scope is left.\<close>

definition setup_timer :: "world \<Rightarrow> nat \<Rightarrow> (exception + unit) \<times> event list" where
  "setup_timer w tmo =
     (if tmo = 0 then (Inr (), [])
      else case sigaction_r w of
        Failed e \<Rightarrow>
          (Inl (Execution_exception (format_error w ''failed to setup timer'' e)),
           [Ev_sigaction (sigaction_r w)])
      | Ok u \<Rightarrow>
          (case setitimer_r w of
             Failed e \<Rightarrow>
               (Inl (Execution_exception (format_error w ''failed to setup timer'' e)),
                [Ev_sigaction (sigaction_r w), Ev_setitimer tmo (setitimer_r w)])
           | Ok u' \<Rightarrow>
               (Inr (), [Ev_sigaction (sigaction_r w), Ev_setitimer tmo (setitimer_r w)])))"

definition timer_reset :: "nat \<Rightarrow> event list" where
  "timer_reset tmo = (if tmo \<noteq> 0 then [Ev_timer_reset] else [])"

text \<open>
  The function given to \<open>process_streams\<close> (lines 534-546): the two pipes with the
  callbacks of \<open>process_streams\<close>, the input pipe if there is input, and the loop, which
  is entered with \<open>command_timedout\<close> false (its initial value, to which \<open>timer_reset\<close>
  returns it).
\<close>

definition read_streams ::
  "world \<Rightarrow> 's stream_processor \<Rightarrow> request \<Rightarrow> descriptors \<Rightarrow> int
     \<Rightarrow> 's loop_exit \<times> event list" where
  "read_streams w sp req d child =
     rw_from_child child
       \<lparr>pipes = [\<lparr>name = ''stdout'', descriptor = stdout_read d, buffer = [],
                   callback = process_stdout sp\<rparr>,
                 \<lparr>name = ''stderr'', descriptor = stderr_read d, buffer = [],
                   callback = process_stderr sp\<rparr>],
        input_first = (case input req of Some text \<Rightarrow> stdin_write d | None \<Rightarrow> - 1),
        input_second = (case input req of Some text \<Rightarrow> text | None \<Rightarrow> []),
        streams = sp_init sp, command_timedout = False\<rparr>
       (timeout req) (iterations w)"

text \<open>From the reaper's variables to the exception or the result (lines 563-572).\<close>

definition conclude :: "request \<Rightarrow> reaped \<Rightarrow> string \<Rightarrow> string \<Rightarrow> exception + result" where
  "conclude req r out err =
     (if \<not> r_success r \<and> \<not> r_signaled r \<and> r_status r \<noteq> 0
         \<and> throw_on_nonzero_exit \<in> options req
      then Inl (Child_exit_exception
                  (''child process returned non-zero exit status ('' @ show_int (r_status r)
                     @ '').'')
                  (r_status r) out err)
      else if \<not> r_success r \<and> r_signaled r \<and> throw_on_signal \<in> options req
      then Inl (Child_signal_exception
                  (''child process was terminated by signal ('' @ show_int (r_status r)
                     @ '').'')
                  (r_status r) out err)
      else Inr \<lparr>success = r_success r, output_text = out, error_text = err,
                exit_code = r_status r\<rparr>)"

text \<open>
  \<open>execute\<close> once the child exists (lines 475-572). The reaper is a scope guard: it runs
  with \<open>kill_child = true\<close> when an exception leaves the scope, after \<open>timer_reset\<close>, which
  was declared later; on the normal path it is invoked with \<open>kill_child = false\<close> and
  \<open>timer_reset\<close> runs at the end. \<open>None\<close>: the call has not come back.
\<close>

definition supervise ::
  "world \<Rightarrow> 's stream_processor \<Rightarrow> request \<Rightarrow> descriptors \<Rightarrow> int \<Rightarrow> launch
     \<Rightarrow> (exception + result) option \<times> event list" where
  "supervise w sp req d child l =
     (case setup_timer w (timeout req) of
        (Inl e, evs) \<Rightarrow>
          (let (r, revs) = reaper w l True child in (Some (Inl e), evs @ revs))
      | (Inr u, evs) \<Rightarrow>
          (case read_streams w sp req d child of
             (Loop_pending, levs) \<Rightarrow> (None, evs @ levs)
           | (Loop_throw e, levs) \<Rightarrow>
               (let (r, revs) = reaper w l True child
                in (Some (Inl e), evs @ levs @ timer_reset (timeout req) @ revs))
           | (Loop_return s, levs) \<Rightarrow>
               (let (out, err) = sp_captured sp s;
                    (r, revs) = reaper w l False child
                in (Some (conclude req r out err),
                    evs @ levs @ revs @ timer_reset (timeout req)))))"

text \<open>
  \<open>execute\<close> up to the creation of the child (lines 415-465): it ends the call (program
  not found, a pipe or \<open>vfork\<close> failed), or it hands over the descriptors, the child's
  identifier and what became of the child branch. \<open>which(file)\<close> searches the
  directories of the search path, which come from outside this file.
\<close>

definition start_child ::
  "world \<Rightarrow> request \<Rightarrow> ((exception + result) + descriptors \<times> int \<times> launch) \<times> event list" where
  "start_child w req =
     (let executable = which w (file_name req) (search_paths w) in
      if executable = []
      then (if throw_on_nonzero_exit \<in> options req
            then (Inl (Inl (Child_exit_exception
                              ''child process returned non-zero exit status.'' 127 [] [])), [])
            else (Inl (Inr \<lparr>success = False, output_text = [], error_text = [],
                            exit_code = 127\<rparr>), []))
      else
        (case open_pipes w req of
           (Inl e, evs) \<Rightarrow> (Inl (Inl e), evs)
         | (Inr d, evs) \<Rightarrow>
             (let args = to_exec_arg (arguments req) (Some (file_name req));
                  variables = create_environment (environment req)
                                (merge_environment \<in> options req) (environ w);
                  envp = to_exec_arg (Some variables) None
              in case create_child w (stdin_read d) (stdout_write d) (child_stderr d)
                        (c_str executable) args envp of
                   (Inl e, cevs) \<Rightarrow> (Inl (Inl e), evs @ cevs)
                 | (Inr (child, l), cevs) \<Rightarrow> (Inr (d, child, l), evs @ cevs))))"

text \<open>\<open>execute\<close> (lines 405-573): its outcome, \<open>None\<close> while pending, and its trace.\<close>

definition execute ::
  "world \<Rightarrow> 's stream_processor \<Rightarrow> request \<Rightarrow> (exception + result) option \<times> event list" where
  "execute w sp req =
     (case start_child w req of
        (Inl outcome, evs) \<Rightarrow> (Some outcome, evs)
      | (Inr (d, child, l), evs) \<Rightarrow>
          (let (r, sevs) = supervise w sp req d child l in (r, evs @ sevs)))"

subsection \<open>Reading the trace\<close>

text \<open>The chunks given to the callback of the pipe \<open>n\<close>, and the non-empty reads from it.\<close>

fun callback_chunks :: "string \<Rightarrow> event list \<Rightarrow> string list" where
  "callback_chunks n [] = []"
| "callback_chunks n (Ev_callback n' c go # evs) =
     (if n' = n then c # callback_chunks n evs else callback_chunks n evs)"
| "callback_chunks n (ev # evs) = callback_chunks n evs"

fun read_chunks :: "string \<Rightarrow> event list \<Rightarrow> string list" where
  "read_chunks n [] = []"
| "read_chunks n (Ev_read n' fd (Read_data d) # evs) =
     (if n' = n \<and> d \<noteq> [] then d # read_chunks n evs else read_chunks n evs)"
| "read_chunks n (ev # evs) = read_chunks n evs"

text \<open>A call of the loop that failed for good: any \<open>errno\<close> but \<open>EINTR\<close>.\<close>

fun hard_failure :: "event \<Rightarrow> bool" where
  "hard_failure (Ev_select rs ws t (Select_failed e)) = (e \<noteq> EINTR)"
| "hard_failure (Ev_read n fd (Read_failed e)) = (e \<noteq> EINTR)"
| "hard_failure (Ev_write fd text (Write_failed e)) = (e \<noteq> EINTR)"
| "hard_failure ev = False"

text \<open>
  A test of the flag by the loop condition, and a trace in which the flag is tested
  after the signal handler has run.
\<close>

fun is_flag_test :: "event \<Rightarrow> bool" where
  "is_flag_test (Ev_command_timedout b) = True"
| "is_flag_test ev = False"

fun tested_after_handler :: "event list \<Rightarrow> bool" where
  "tested_after_handler [] = False"
| "tested_after_handler (Ev_timer_handler # evs) = list_ex is_flag_test evs"
| "tested_after_handler (ev # evs) = tested_after_handler evs"

text \<open>Whether \<open>select\<close> has reported a descriptor ready for reading, or for writing.\<close>

fun ready_to_read :: "select_result \<Rightarrow> int \<Rightarrow> bool" where
  "ready_to_read (Select_ready ready_r ready_w) fd = (fd \<in> set ready_r)"
| "ready_to_read (Select_failed e) fd = False"

fun ready_to_write :: "select_result \<Rightarrow> int \<Rightarrow> bool" where
  "ready_to_write (Select_ready ready_r ready_w) fd = (fd \<in> set ready_w)"
| "ready_to_write (Select_failed e) fd = False"


text \<open>The two calls of the reaper.\<close>

fun is_reap :: "event \<Rightarrow> bool" where
  "is_reap (Ev_kill pid sig) = True"
| "is_reap (Ev_waitpid pid r) = True"
| "is_reap ev = False"

text \<open>The events of the multiplexing loop.\<close>

fun loop_only :: "event \<Rightarrow> bool" where
  "loop_only Ev_timer_handler = True"
| "loop_only (Ev_command_timedout b) = True"
| "loop_only (Ev_select rs ws t r) = True"
| "loop_only (Ev_read n fd r) = True"
| "loop_only (Ev_callback n c go) = True"
| "loop_only (Ev_write fd text r) = True"
| "loop_only ev = False"

subsection \<open>The parts of the environment block\<close>

text \<open>
  Names for what the three steps of \<open>create_environment\<close> contribute: the entries
  formatted from the given mapping, the entries copied from the parent, and whether the
  mapping has a key.
\<close>

definition given_entries :: "string_map option \<Rightarrow> string list" where
  "given_entries env =
     (case env of Some m \<Rightarrow> map (\<lambda>kvp. fst kvp @ ''='' @ snd kvp) m | None \<Rightarrow> [])"

definition inherited_entries :: "bool \<Rightarrow> string list option \<Rightarrow> string list" where
  "inherited_entries mrg parent =
     (case parent of
        Some vars \<Rightarrow> if mrg
                     then filter (\<lambda>e. \<not> starts_with e ''LC_ALL='' \<and> \<not> starts_with e ''LANG='') vars
                     else []
      | None \<Rightarrow> [])"

definition has_key :: "string_map option \<Rightarrow> string \<Rightarrow> bool" where
  "has_key env k = (case env of Some m \<Rightarrow> k \<in> set (map fst m) | None \<Rightarrow> False)"

subsection \<open>A sample run\<close>

text \<open>
  A processor that appends what it is given and goes on, and a world in which
  \<open>/bin/prog\<close> exists, every call succeeds, the child writes \<open>hello\<close> and exits with 3.
\<close>

definition sample_processor :: "(string \<times> string) stream_processor" where
  "sample_processor =
     \<lparr>sp_init = ([], []),
      process_stdout = (\<lambda>c s. (True, (fst s @ c, snd s))),
      process_stderr = (\<lambda>c s. (True, (fst s, snd s @ c))),
      sp_captured = (\<lambda>s. s)\<rparr>"

definition closing_turn :: iteration where
  "closing_turn =
     \<lparr>it_alarm = False, it_select = Select_ready [5, 7] [],
      it_read = (\<lambda>fd. Read_data []), it_write = Written 0\<rparr>"

definition hello_turn :: iteration where
  "hello_turn =
     \<lparr>it_alarm = False, it_select = Select_ready [5] [],
      it_read = (\<lambda>fd. Read_data ''hello''), it_write = Written 0\<rparr>"

definition sample_world :: world where
  "sample_world =
     \<lparr>path_is_absolute = (\<lambda>p. take 1 p = ''/''),
      path_append = (\<lambda>dir f. dir @ ''/'' @ f),
      is_regular_file = (\<lambda>p. p = ''/bin/prog''),
      stat_r = (\<lambda>p. if p = ''/bin/prog''
                     then Some \<lparr>st_mode = 0x1ed, st_uid = 0, st_gid = 0\<rparr> else None),
      geteuid = 1000, getgid = 1000, getegid = 1000,
      getgroups_num = 0, getgroups_r = [],
      search_paths = [''/usr/bin'', ''/bin''],
      environ = Some [''PATH=/usr/bin:/bin'', ''LANG=en_US.UTF-8'', ''FOO=parent''],
      strerror = (\<lambda>e. ''error''),
      char_is_signed = True,
      sc_open_max_defined = True, sysconf_open_max = 1024,
      rlimit_nofile_defined = False, getrlimit_nofile = Ok 1024, open_max_macro = None,
      pipe_stdin = Ok (3, 4), pipe_stdout = Ok (5, 6), pipe_stderr = Ok (7, 8),
      open_dev_null = 9,
      vfork_r = 4242, vfork_errno = 0,
      setpgid_r = Ok (), dup2_stdin_r = Ok (), dup2_stdout_r = Ok (), dup2_stderr_r = Ok (),
      write_diagnostic_r = Ok (), execve_r = None,
      sigaction_r = Ok (), setitimer_r = Ok (),
      iterations = [hello_turn, closing_turn, closing_turn],
      waitpid_errno = None, program_wstatus = 0x300\<rparr>"

definition sample_request :: request where
  "sample_request =
     \<lparr>file_name = ''prog'', arguments = Some [''-x''], input = None,
      environment = Some [(''FOO'', ''caller'')], options = {merge_environment},
      timeout = 0\<rparr>"

definition sample_descriptors :: descriptors where
  "sample_descriptors =
     \<lparr>stdin_read = 3, stdin_write = 4, stdout_read = 5, stdout_write = 6,
      stderr_read = 7, stderr_write = 8, dev_null = - 1, child_stderr = 8\<rparr>"

text \<open>
  Turns in which \<open>select\<close> is interrupted by the timer's signal, \<open>select\<close> fails for
  good, and every call is interrupted by some other signal.
\<close>

definition expired_turn :: iteration where
  "expired_turn = closing_turn\<lparr>it_alarm := True, it_select := Select_failed EINTR\<rparr>"

definition failing_turn :: iteration where
  "failing_turn = closing_turn\<lparr>it_select := Select_failed 9\<rparr>"

definition interrupted_turn :: iteration where
  "interrupted_turn =
     \<lparr>it_alarm = False, it_select = Select_failed EINTR,
      it_read = (\<lambda>fd. Read_failed EINTR), it_write = Write_failed EINTR\<rparr>"

text \<open>A turn in which all descriptors are ready and every call on them is interrupted.\<close>

definition busy_turn :: iteration where
  "busy_turn = interrupted_turn\<lparr>it_select := Select_ready [5, 7] [4]\<rparr>"

text \<open>A processor whose stdout callback asks to stop at the first chunk.\<close>

definition stopping_processor :: "(string \<times> string) stream_processor" where
  "stopping_processor =
     sample_processor\<lparr>process_stdout := (\<lambda>c s. (False, (fst s @ c, snd s)))\<rparr>"

text \<open>The state of the loop in the sample run, with input \<open>in\<close> still to be written.\<close>

definition sample_state :: "(string \<times> string) rw_state" where
  "sample_state =
     \<lparr>pipes = [\<lparr>name = ''stdout'', descriptor = 5, buffer = [],
                 callback = process_stdout sample_processor\<rparr>,
               \<lparr>name = ''stderr'', descriptor = 7, buffer = [],
                 callback = process_stderr sample_processor\<rparr>],
      input_first = 4, input_second = ''in'', streams = ([], []),
      command_timedout = False\<rparr>"

text \<open>
  Variants of the sample run, with a timeout of 5 seconds requested where the timer
  matters: the timer expires during the first wait; it expires in the turn in which
  the chunk \<open>hello\<close> is read; the program exits with 200, and with 255; and \<open>execve\<close>
  fails with \<open>ENOENT\<close> so that nothing is ever written to the pipes.
\<close>

definition expired_world :: world where
  "expired_world = sample_world\<lparr>iterations := [expired_turn, closing_turn]\<rparr>"

definition late_world :: world where
  "late_world = sample_world\<lparr>iterations := [hello_turn\<lparr>it_alarm := True\<rparr>, closing_turn]\<rparr>"

definition shrill_world :: world where
  "shrill_world = sample_world\<lparr>program_wstatus := 0xFF00\<rparr>"

definition timed_request :: request where
  "timed_request = sample_request\<lparr>timeout := 5\<rparr>"

definition loud_world :: world where
  "loud_world = sample_world\<lparr>program_wstatus := 0xC800\<rparr>"

definition unlaunched_world :: world where
  "unlaunched_world = sample_world\<lparr>execve_r := Some 2, iterations := [closing_turn, closing_turn]\<rparr>"

text \<open>The trace of the sample run up to the creation of the child.\<close>

definition sample_prefix :: "int option \<Rightarrow> event list" where
  "sample_prefix exec_result =
     [Ev_pipe (Ok (3, 4)), Ev_pipe (Ok (5, 6)), Ev_pipe (Ok (7, 8)),
      Ev_vfork 4242, Ev_setpgid (Ok ()), Ev_dup2 3 0 (Ok ()),
      Ev_dup2 6 1 (Ok ()), Ev_dup2 8 2 (Ok ()), Ev_close_above_stderr 1024,
      Ev_execve ''/bin/prog'' [''prog'', ''-x'']
        [''PATH=/usr/bin:/bin'', ''FOO=parent'', ''FOO=caller'', ''LC_ALL=C'', ''LANG=C'']
        exec_result]"

text \<open>The first turn of the sample run; \<open>go\<close> is the callback's answer.\<close>

definition sample_loop_events :: "bool \<Rightarrow> event list" where
  "sample_loop_events go =
    [Ev_command_timedout False, Ev_select [5, 7] [] False (Select_ready [5] []),
     Ev_read ''stdout'' 5 (Read_data ''hello''), Ev_callback ''stdout'' ''hello'' go]"

section \<open>Properties\<close>

subsection \<open>Environment builder\<close>

lemma merge_environ_filter:
  "merge_environ vars result =
     result @ filter (\<lambda>e. \<not> starts_with e ''LC_ALL='' \<and> \<not> starts_with e ''LANG='') vars"
  by (induction vars arbitrary: result) auto

lemma add_given_map:
  "add_given m result = result @ map (\<lambda>kvp. fst kvp @ ''='' @ snd kvp) m"
  by (induction m arbitrary: result) auto

lemma entry_is_LC_ALL_C:
  "k @ ''='' @ v = ''LC_ALL=C'' \<longleftrightarrow> k = ''LC_ALL'' \<and> v = ''C''"
  by (auto simp: append_eq_Cons_conv Cons_eq_append_conv)

lemma entry_is_LANG_C:
  "k @ ''='' @ v = ''LANG=C'' \<longleftrightarrow> k = ''LANG'' \<and> v = ''C''"
  by (auto simp: append_eq_Cons_conv Cons_eq_append_conv)

lemma getenv_first_append:
  "getenv_first (xs @ ys) k =
     (case getenv_first xs k of Some v \<Rightarrow> Some v | None \<Rightarrow> getenv_first ys k)"
  by (induction xs) auto

lemma starts_with_entry:
  "CHR ''='' \<notin> set k \<Longrightarrow> CHR ''='' \<notin> set k' \<Longrightarrow>
     starts_with (k' @ ''='' @ v') (k @ ''='') \<longleftrightarrow> k' = k"
proof (induction k arbitrary: k')
  case Nil
  then show ?case by (cases k') (auto simp: starts_with_def)
next
  case (Cons a k)
  then show ?case by (cases k') (auto simp: starts_with_def)
qed

lemma getenv_first_given:
  assumes "(k, v) \<in> set m" "distinct (map fst m)" "\<forall>k' \<in> set (map fst m). CHR ''='' \<notin> set k'"
  shows "getenv_first (rev (map (\<lambda>kvp. fst kvp @ ''='' @ snd kvp) m)) k = Some v"
  using assms
proof (induction m rule: rev_induct)
  case Nil
  then show ?case by simp
next
  case (snoc x m)
  have kfree: "CHR ''='' \<notin> set k" using snoc.prems by force
  have xfree: "CHR ''='' \<notin> set (fst x)" using snoc.prems by simp
  show ?case
  proof (cases "fst x = k")
    case True
    then have "snd x = v" using snoc.prems by (cases x) (force simp: image_iff)
    with True show ?thesis
      using starts_with_entry [OF kfree kfree, of v] by simp
  next
    case False
    then have "(k, v) \<in> set m" using snoc.prems by auto
    then have "getenv_first (rev (map (\<lambda>kvp. fst kvp @ ''='' @ snd kvp) m)) k = Some v"
      using snoc by simp
    with False show ?thesis
      using starts_with_entry [OF kfree xfree, of "snd x"] by simp
  qed
qed

lemma create_environment_parts:
  "create_environment env mrg parent =
     inherited_entries mrg parent @ given_entries env
       @ (if has_key env ''LC_ALL'' then [] else [''LC_ALL=C''])
       @ (if has_key env ''LANG'' then [] else [''LANG=C''])"
  by (cases env; cases parent)
     (simp_all add: create_environment_def inherited_entries_def given_entries_def has_key_def
        count_key_def merge_environ_filter add_given_map)

lemma LC_ALL_C_not_inherited: "''LC_ALL=C'' \<notin> set (inherited_entries mrg parent)"
  by (cases parent) (auto simp: inherited_entries_def starts_with_def)

lemma LANG_C_not_inherited: "''LANG=C'' \<notin> set (inherited_entries mrg parent)"
  by (cases parent) (auto simp: inherited_entries_def starts_with_def)

lemma in_given_entries:
  "k @ ''='' @ v \<in> set (given_entries (Some m)) \<longleftrightarrow>
     (\<exists>k' v'. (k', v') \<in> set m \<and> k' @ ''='' @ v' = k @ ''='' @ v)"
  by (force simp: given_entries_def)

text \<open>
  Claim C8, as the code has it. For every mapping, merge flag and parent environment the
  block is made of entries copied from the parent, none of which begins with \<open>LC_ALL=\<close>
  or \<open>LANG=\<close>, then the caller's entries, then the defaults \<open>LC_ALL=C\<close> and \<open>LANG=C\<close>,
  each appended exactly when the mapping lacks the key. The block contains \<open>LC_ALL=C\<close>
  (respectively \<open>LANG=C\<close>) exactly when the mapping has no such key or maps it to \<open>C\<close>.
\<close>

theorem locale_entries:
  "(\<exists>inherited. create_environment env mrg parent
        = inherited @ given_entries env
            @ (if has_key env ''LC_ALL'' then [] else [''LC_ALL=C''])
            @ (if has_key env ''LANG'' then [] else [''LANG=C''])
      \<and> set inherited \<subseteq> (case parent of Some vars \<Rightarrow> set vars | None \<Rightarrow> {})
      \<and> (\<forall>e \<in> set inherited. \<not> starts_with e ''LC_ALL='' \<and> \<not> starts_with e ''LANG=''))
   \<and> (''LC_ALL=C'' \<in> set (create_environment env mrg parent)
        \<longleftrightarrow> \<not> has_key env ''LC_ALL''
            \<or> (\<exists>m. env = Some m \<and> (''LC_ALL'', ''C'') \<in> set m))
   \<and> (''LANG=C'' \<in> set (create_environment env mrg parent)
        \<longleftrightarrow> \<not> has_key env ''LANG''
            \<or> (\<exists>m. env = Some m \<and> (''LANG'', ''C'') \<in> set m))"
proof (intro conjI)
  show "\<exists>inherited. create_environment env mrg parent
        = inherited @ given_entries env
            @ (if has_key env ''LC_ALL'' then [] else [''LC_ALL=C''])
            @ (if has_key env ''LANG'' then [] else [''LANG=C''])
      \<and> set inherited \<subseteq> (case parent of Some vars \<Rightarrow> set vars | None \<Rightarrow> {})
      \<and> (\<forall>e \<in> set inherited. \<not> starts_with e ''LC_ALL='' \<and> \<not> starts_with e ''LANG='')"
    by (rule exI [of _ "inherited_entries mrg parent"])
       (auto simp: create_environment_parts inherited_entries_def split: option.splits)
next
  have given: "''LC_ALL=C'' \<in> set (given_entries env)
      \<longleftrightarrow> (\<exists>m. env = Some m \<and> (''LC_ALL'', ''C'') \<in> set m)"
  proof (cases env)
    case None
    then show ?thesis by (simp add: given_entries_def)
  next
    case (Some m)
    have "''LC_ALL=C'' \<in> set (given_entries (Some m)) \<longleftrightarrow> (''LC_ALL'', ''C'') \<in> set m"
      using in_given_entries [of "''LC_ALL''" "''C''" m] entry_is_LC_ALL_C by auto
    with Some show ?thesis by simp
  qed
  have key: "(\<exists>m. env = Some m \<and> (''LC_ALL'', ''C'') \<in> set m) \<Longrightarrow> has_key env ''LC_ALL''"
    by (force simp: has_key_def)
  show "''LC_ALL=C'' \<in> set (create_environment env mrg parent)
        \<longleftrightarrow> \<not> has_key env ''LC_ALL''
            \<or> (\<exists>m. env = Some m \<and> (''LC_ALL'', ''C'') \<in> set m)"
    using given key LC_ALL_C_not_inherited [of mrg parent]
    by (auto simp: create_environment_parts)
next
  have given: "''LANG=C'' \<in> set (given_entries env)
      \<longleftrightarrow> (\<exists>m. env = Some m \<and> (''LANG'', ''C'') \<in> set m)"
  proof (cases env)
    case None
    then show ?thesis by (simp add: given_entries_def)
  next
    case (Some m)
    have "''LANG=C'' \<in> set (given_entries (Some m)) \<longleftrightarrow> (''LANG'', ''C'') \<in> set m"
      using in_given_entries [of "''LANG''" "''C''" m] entry_is_LANG_C by auto
    with Some show ?thesis by simp
  qed
  have key: "(\<exists>m. env = Some m \<and> (''LANG'', ''C'') \<in> set m) \<Longrightarrow> has_key env ''LANG''"
    by (force simp: has_key_def)
  show "''LANG=C'' \<in> set (create_environment env mrg parent)
        \<longleftrightarrow> \<not> has_key env ''LANG''
            \<or> (\<exists>m. env = Some m \<and> (''LANG'', ''C'') \<in> set m)"
    using given key LANG_C_not_inherited [of mrg parent]
    by (auto simp: create_environment_parts)
qed

theorem locale_entries_witness:
  "''LC_ALL=C'' \<in> set (create_environment (Some [(''LANG'', ''fr_FR'')]) True
                          (Some [''LC_ALL=de_DE'', ''HOME=/root'']))
   \<and> ''LANG=C'' \<notin> set (create_environment (Some [(''LANG'', ''fr_FR'')]) True
                          (Some [''LC_ALL=de_DE'', ''HOME=/root'']))"
  using locale_entries [of "Some [(''LANG'', ''fr_FR'')]" True
                           "Some [''LC_ALL=de_DE'', ''HOME=/root'']"]
  by (simp add: has_key_def)

text \<open>
  Claim C8 as stated fails where the caller sets \<open>LC_ALL\<close> to \<open>C\<close>: the block contains
  \<open>LC_ALL=C\<close> although the mapping has the key.
\<close>

theorem locale_default_counterexample:
  "\<not> (''LC_ALL=C'' \<in> set (create_environment (Some [(''LC_ALL'', ''C'')]) False None)
        \<longleftrightarrow> \<not> has_key (Some [(''LC_ALL'', ''C'')]) ''LC_ALL'')"
  by (simp add: create_environment_def count_key_def has_key_def)


text \<open>
  Claim C3, as the code has it. With the merge option and a parent environment, the block
  starts with the entries copied from the parent, the overridden variable's among them,
  and the caller's entry \<open>k=v\<close> comes after all of them. So whenever the parent defines
  the variable, a first-match lookup (\<open>getenv\<close>) of the block still finds the parent's
  value; a last-match lookup finds the caller's, given that the mapping has one entry
  per key and no key contains \<open>=\<close>.
\<close>

theorem caller_entry_follows_inherited:
  assumes "(k, v) \<in> set m"
  shows "(\<exists>rest. create_environment (Some m) True (Some vars)
                   = inherited_entries True (Some vars) @ rest
                 \<and> k @ ''='' @ v \<in> set rest)
       \<and> (\<forall>pv. getenv_first (inherited_entries True (Some vars)) k = Some pv
              \<longrightarrow> getenv_first (create_environment (Some m) True (Some vars)) k = Some pv)
       \<and> (distinct (map fst m) \<and> (\<forall>k' \<in> set (map fst m). CHR ''='' \<notin> set k')
              \<longrightarrow> getenv_last (create_environment (Some m) True (Some vars)) k = Some v)"
proof (intro conjI allI impI)
  let ?defaults = "(if has_key (Some m) ''LC_ALL'' then [] else [''LC_ALL=C''])
                     @ (if has_key (Some m) ''LANG'' then [] else [''LANG=C''])"
  have parts: "create_environment (Some m) True (Some vars)
      = inherited_entries True (Some vars) @ given_entries (Some m) @ ?defaults"
    by (simp add: create_environment_parts)
  have entry: "k @ ''='' @ v \<in> set (given_entries (Some m))"
    using assms by (force simp: given_entries_def)
  show "\<exists>rest. create_environment (Some m) True (Some vars)
                   = inherited_entries True (Some vars) @ rest
               \<and> k @ ''='' @ v \<in> set rest"
    using parts entry by (intro exI [of _ "given_entries (Some m) @ ?defaults"]) simp
  {
    fix pv
    assume "getenv_first (inherited_entries True (Some vars)) k = Some pv"
    then show "getenv_first (create_environment (Some m) True (Some vars)) k = Some pv"
      by (simp add: parts getenv_first_append)
  }
  {
    assume hyg: "distinct (map fst m) \<and> (\<forall>k' \<in> set (map fst m). CHR ''='' \<notin> set k')"
    have key: "has_key (Some m) k" using assms by (force simp: has_key_def)
    have kfree: "CHR ''='' \<notin> set k" using assms hyg by force
    have lc: "k \<noteq> ''LC_ALL'' \<Longrightarrow> \<not> starts_with ''LC_ALL=C'' (k @ ''='')"
      using starts_with_entry [OF kfree, of "''LC_ALL''" "''C''"] by simp
    have la: "k \<noteq> ''LANG'' \<Longrightarrow> \<not> starts_with ''LANG=C'' (k @ ''='')"
      using starts_with_entry [OF kfree, of "''LANG''" "''C''"] by simp
    have d: "getenv_first (rev ?defaults) k = None"
      using key lc la by auto
    have g: "getenv_first (rev (given_entries (Some m))) k = Some v"
      using getenv_first_given [OF assms] hyg by (simp add: given_entries_def)
    have "rev (create_environment (Some m) True (Some vars))
        = rev ?defaults @ rev (given_entries (Some m)) @ rev (inherited_entries True (Some vars))"
      by (simp only: parts rev_append append_assoc)
    then show "getenv_last (create_environment (Some m) True (Some vars)) k = Some v"
      using d g by (simp only: getenv_last_def getenv_first_append) simp
  }
qed

theorem caller_entry_follows_inherited_witness:
  "getenv_first (create_environment (Some [(''FOO'', ''caller'')]) True
                   (Some [''LANG=en_US.UTF-8'', ''FOO=parent''])) ''FOO'' = Some ''parent''
   \<and> getenv_last (create_environment (Some [(''FOO'', ''caller'')]) True
                   (Some [''LANG=en_US.UTF-8'', ''FOO=parent''])) ''FOO'' = Some ''caller''"
proof -
  have h: "(''FOO'', ''caller'') \<in> set [(''FOO'', ''caller'')]" by simp
  have p: "getenv_first (inherited_entries True (Some [''LANG=en_US.UTF-8'', ''FOO=parent'']))
             ''FOO'' = Some ''parent''"
    by (simp add: inherited_entries_def starts_with_def)
  show ?thesis
    using caller_entry_follows_inherited [OF h, of "[''LANG=en_US.UTF-8'', ''FOO=parent'']"] p
    by simp
qed

text \<open>
  Claim C3 as stated fails: with \<open>FOO=parent\<close> inherited and \<open>FOO\<close> overridden by the
  caller, both entries are in the block, the parent's first, and \<open>getenv\<close> in the child
  returns the parent's value.
\<close>

theorem override_counterexample:
  "create_environment (Some [(''FOO'', ''caller'')]) True (Some [''FOO=parent''])
     = [''FOO=parent'', ''FOO=caller'', ''LC_ALL=C'', ''LANG=C'']
   \<and> getenv_first (create_environment (Some [(''FOO'', ''caller'')]) True
                     (Some [''FOO=parent''])) ''FOO'' = Some ''parent''"
  by (simp add: create_environment_def count_key_def starts_with_def)

subsection \<open>Reaper\<close>

lemma WEXITSTATUS_bound: "uint (WEXITSTATUS raw) < 256"
proof -
  have "raw AND 0xff00 \<le> 0xff00" by (rule word_and_le1)
  then have "uint (raw AND 0xff00) \<le> 0xff00" by (simp add: word_le_def)
  moreover have "0 \<le> uint (raw AND 0xff00)" by simp
  ultimately have "uint (raw AND 0xff00) div 256 < 256" by simp
  then show ?thesis
    by (simp add: WEXITSTATUS_def drop_bit_eq_div uint_div_distrib)
qed

lemma WTERMSIG_bound: "uint (WTERMSIG raw) < 128"
proof -
  have "raw AND 0x7f \<le> 0x7f" by (rule word_and_le1)
  then have "uint (raw AND 0x7f) \<le> 0x7f" by (simp add: word_le_def)
  then show ?thesis by (simp add: WTERMSIG_def)
qed

lemma static_cast_char_mod: "static_cast_char b x mod 256 = uint x mod 256"
proof -
  have "uint (ucast x :: 8 word) = take_bit 8 (sint (ucast x :: 8 word))"
    using uint_sint [of "ucast x :: 8 word"] by simp
  moreover have "uint (ucast x :: 8 word) = uint x mod 256"
    by (simp add: unsigned_ucast_eq take_bit_eq_mod)
  ultimately show ?thesis
    by (auto simp: static_cast_char_def take_bit_eq_mod)
qed

lemma static_cast_char_range: "- 128 \<le> static_cast_char b x \<and> static_cast_char b x < 256"
proof -
  have "- 128 \<le> sint (ucast x :: 8 word)" "sint (ucast x :: 8 word) < 128"
    using sint_ge [of "ucast x :: 8 word"] sint_lt [of "ucast x :: 8 word"] by simp_all
  moreover have "0 \<le> uint (ucast x :: 8 word)" "uint (ucast x :: 8 word) < 256"
    using uint_lt2p [of "ucast x :: 8 word"] by simp_all
  moreover have "- 128 \<le> uint (ucast x :: 8 word)"
    by (rule order_trans [OF _ uint_nonnegative]) simp
  ultimately show ?thesis
    by (simp add: static_cast_char_def)
qed

lemma static_cast_char_small:
  assumes "uint x < 128"
  shows "static_cast_char b x = uint x"
proof -
  have u: "uint (ucast x :: 8 word) = uint x"
    using assms by (simp add: unsigned_ucast_eq take_bit_eq_mod)
  have "sint (ucast x :: 8 word) = signed_take_bit 7 (uint (ucast x :: 8 word))"
    by (simp add: sint_uint)
  also have "\<dots> = uint x"
  proof -
    have "- (2 ^ 7) \<le> uint x" by (rule order_trans [OF _ uint_nonnegative]) simp
    moreover have "uint x < 2 ^ 7" using assms by simp
    ultimately have "signed_take_bit 7 (uint x) = uint x"
      by (rule signed_take_bit_int_eq_self)
    then show ?thesis by (simp add: u)
  qed
  finally show ?thesis using u by (simp add: static_cast_char_def)
qed

lemma static_cast_char_unsigned:
  assumes "uint x < 256"
  shows "static_cast_char False x = uint x"
  using assms by (simp add: static_cast_char_def unsigned_ucast_eq take_bit_eq_mod)

lemma static_cast_char_signed_high:
  assumes "128 \<le> uint x" "uint x < 256"
  shows "static_cast_char True x = uint x - 256"
proof -
  have r: "- 128 \<le> static_cast_char True x" "static_cast_char True x < 128"
    using sint_ge [of "ucast x :: 8 word"] sint_lt [of "ucast x :: 8 word"]
    by (simp_all add: static_cast_char_def)
  have "static_cast_char True x mod 256 = uint x"
    using static_cast_char_mod [of True x] assms by simp
  with r assms show ?thesis by presburger
qed

text \<open>
  Claim C7, as the code has it. When \<open>waitpid\<close> delivers a status, a normal exit gives
  the exit code, a value from 0 to 255, cast to \<open>char\<close>: where \<open>char\<close> is signed and the
  code is 128 or more the status is the code less 256, a negative number; otherwise it
  is the code itself. In both cases the status agrees with the code modulo 256 and
  \<open>signaled\<close> is left false. A termination by signal gives the signal number, with
  \<open>signaled\<close> set. The two cases exclude each other.
\<close>

theorem reaper_decodes_status:
  assumes "waitpid_r w l = Ok raw"
  shows "(WIFEXITED raw \<longrightarrow>
            r_status (fst (reaper w l kill_child child))
              = static_cast_char (char_is_signed w) (WEXITSTATUS raw)
          \<and> uint (WEXITSTATUS raw) < 256
          \<and> (char_is_signed w \<and> 128 \<le> uint (WEXITSTATUS raw) \<longrightarrow>
               r_status (fst (reaper w l kill_child child)) = uint (WEXITSTATUS raw) - 256)
          \<and> (\<not> char_is_signed w \<or> uint (WEXITSTATUS raw) < 128 \<longrightarrow>
               r_status (fst (reaper w l kill_child child)) = uint (WEXITSTATUS raw))
          \<and> r_status (fst (reaper w l kill_child child)) mod 256 = uint (WEXITSTATUS raw)
          \<and> - 128 \<le> r_status (fst (reaper w l kill_child child))
          \<and> r_status (fst (reaper w l kill_child child)) < 256
          \<and> \<not> r_signaled (fst (reaper w l kill_child child)))
       \<and> (WIFSIGNALED raw \<longrightarrow>
            r_status (fst (reaper w l kill_child child)) = uint (WTERMSIG raw)
          \<and> r_signaled (fst (reaper w l kill_child child)))
       \<and> \<not> (WIFEXITED raw \<and> WIFSIGNALED raw)"
proof (intro conjI impI)
  assume ex: "WIFEXITED raw"
  then have r: "fst (reaper w l kill_child child)
      = \<lparr>r_success = (static_cast_char (char_is_signed w) (WEXITSTATUS raw) = 0),
         r_signaled = False,
         r_status = static_cast_char (char_is_signed w) (WEXITSTATUS raw)\<rparr>"
    using assms by (simp add: reaper_def Let_def)
  show "r_status (fst (reaper w l kill_child child))
          = static_cast_char (char_is_signed w) (WEXITSTATUS raw)"
    by (simp add: r)
  show "uint (WEXITSTATUS raw) < 256"
    by (rule WEXITSTATUS_bound)
  show "r_status (fst (reaper w l kill_child child)) mod 256 = uint (WEXITSTATUS raw)"
    using WEXITSTATUS_bound [of raw] by (simp add: r static_cast_char_mod)
  show "- 128 \<le> r_status (fst (reaper w l kill_child child))"
    using static_cast_char_range by (simp add: r)
  show "r_status (fst (reaper w l kill_child child)) < 256"
    using static_cast_char_range by (simp add: r)
  show "\<not> r_signaled (fst (reaper w l kill_child child))"
    by (simp add: r)
  {
    assume "char_is_signed w \<and> 128 \<le> uint (WEXITSTATUS raw)"
    then show "r_status (fst (reaper w l kill_child child)) = uint (WEXITSTATUS raw) - 256"
      using static_cast_char_signed_high [OF _ WEXITSTATUS_bound, of raw] by (simp add: r)
  }
  {
    assume a: "\<not> char_is_signed w \<or> uint (WEXITSTATUS raw) < 128"
    show "r_status (fst (reaper w l kill_child child)) = uint (WEXITSTATUS raw)"
    proof (cases "char_is_signed w")
      case True
      with a have "uint (WEXITSTATUS raw) < 128" by simp
      then show ?thesis using static_cast_char_small by (simp add: r)
    next
      case False
      then show ?thesis
        using static_cast_char_unsigned [OF WEXITSTATUS_bound, of raw] by (simp add: r)
    qed
  }
next
  assume sg: "WIFSIGNALED raw"
  then have "\<not> WIFEXITED raw" by (simp add: WIFSIGNALED_def WIFEXITED_def)
  with sg have r: "fst (reaper w l kill_child child)
      = \<lparr>r_success = False, r_signaled = True,
         r_status = static_cast_char (char_is_signed w) (WTERMSIG raw)\<rparr>"
    using assms by (simp add: reaper_def Let_def)
  show "r_status (fst (reaper w l kill_child child)) = uint (WTERMSIG raw)"
    using WTERMSIG_bound [of raw] by (simp add: r static_cast_char_small)
  show "r_signaled (fst (reaper w l kill_child child))"
    by (simp add: r)
next
  show "\<not> (WIFEXITED raw \<and> WIFSIGNALED raw)"
    by (simp add: WIFSIGNALED_def WIFEXITED_def)
qed

text \<open>
  Exit codes 3 and 128 where \<open>char\<close> is signed, exit code 200 where it is not, and a
  child killed by signal 9.
\<close>

theorem reaper_decodes_status_witness:
  "r_status (fst (reaper sample_world Image_replaced False 4242)) = 3
   \<and> \<not> r_signaled (fst (reaper sample_world Image_replaced False 4242))
   \<and> r_status (fst (reaper (sample_world\<lparr>program_wstatus := 0x8000\<rparr>) Image_replaced False 4242))
       = - 128
   \<and> r_status (fst (reaper (sample_world\<lparr>char_is_signed := False, program_wstatus := 0xC800\<rparr>)
                       Image_replaced False 4242)) = 200
   \<and> r_status (fst (reaper (sample_world\<lparr>program_wstatus := 9\<rparr>) Image_replaced True 4242)) = 9
   \<and> r_signaled (fst (reaper (sample_world\<lparr>program_wstatus := 9\<rparr>) Image_replaced True 4242))"
proof -
  have a: "waitpid_r sample_world Image_replaced = Ok 0x300"
    by (simp add: waitpid_r_def sample_world_def)
  have b: "waitpid_r (sample_world\<lparr>program_wstatus := 9\<rparr>) Image_replaced = Ok 9"
    by (simp add: waitpid_r_def sample_world_def)
  have a2: "waitpid_r (sample_world\<lparr>program_wstatus := 0x8000\<rparr>) Image_replaced = Ok 0x8000"
    by (simp add: waitpid_r_def sample_world_def)
  have a3: "waitpid_r (sample_world\<lparr>char_is_signed := False, program_wstatus := 0xC800\<rparr>)
              Image_replaced = Ok 0xC800"
    by (simp add: waitpid_r_def sample_world_def)
  have c: "WIFEXITED (0x300 :: 32 word)" "WEXITSTATUS (0x300 :: 32 word) = 3"
    "WIFEXITED (0x8000 :: 32 word)" "WEXITSTATUS (0x8000 :: 32 word) = 128"
    "WIFEXITED (0xC800 :: 32 word)" "WEXITSTATUS (0xC800 :: 32 word) = 200"
    by (simp_all add: WIFEXITED_def WTERMSIG_def WEXITSTATUS_def)
  have d: "WIFSIGNALED (9 :: 32 word)" "WTERMSIG (9 :: 32 word) = 9"
    by (simp_all add: WIFSIGNALED_def WTERMSIG_def)
  have s: "char_is_signed sample_world"
    "char_is_signed (sample_world\<lparr>program_wstatus := 0x8000\<rparr>)"
    "\<not> char_is_signed (sample_world\<lparr>char_is_signed := False, program_wstatus := 0xC800\<rparr>)"
    by (simp_all add: sample_world_def)
  show ?thesis
    using reaper_decodes_status [OF a, of False 4242] reaper_decodes_status [OF b, of True 4242]
      reaper_decodes_status [OF a2, of False 4242] reaper_decodes_status [OF a3, of False 4242]
      c d s
    by simp
qed

text \<open>
  Claim C7 as stated fails where \<open>char\<close> is signed: the child exits normally with code
  255, and the status decoded by the reaper is -1, which is neither that code nor a
  value of the range 0 to 255 that POSIX leaves of an exit status.
\<close>

theorem reaper_status_counterexample:
  "waitpid_r shrill_world Image_replaced = Ok 0xFF00
   \<and> WIFEXITED (0xFF00 :: 32 word)
   \<and> uint (WEXITSTATUS (0xFF00 :: 32 word)) = 255
   \<and> r_status (fst (reaper shrill_world Image_replaced False 4242)) = - 1
   \<and> \<not> r_signaled (fst (reaper shrill_world Image_replaced False 4242))"
  by (simp add: shrill_world_def sample_world_def reaper_def waitpid_r_def WIFEXITED_def
        WTERMSIG_def WEXITSTATUS_def static_cast_char_def)


subsection \<open>Program not found\<close>

text \<open>
  Claim C5. If \<open>which\<close> does not resolve the program, \<open>execute\<close> issues no system call at
  all, so no child is created, and it yields status 127: a result with \<open>success = false\<close>,
  or the child exit exception carrying 127 when \<open>throw_on_nonzero_exit\<close> is set.
\<close>

theorem not_found_yields_127:
  assumes "which w (file_name req) (search_paths w) = []"
  shows "snd (execute w sp req) = []
       \<and> fst (execute w sp req)
           = Some (if throw_on_nonzero_exit \<in> options req
                   then Inl (Child_exit_exception
                               ''child process returned non-zero exit status.'' 127 [] [])
                   else Inr \<lparr>success = False, output_text = [], error_text = [],
                             exit_code = 127\<rparr>)"
  using assms by (simp add: execute_def start_child_def)

theorem not_found_yields_127_witness:
  "execute sample_world sample_processor (sample_request\<lparr>file_name := ''nosuch''\<rparr>)
     = (Some (Inr \<lparr>success = False, output_text = [], error_text = [], exit_code = 127\<rparr>), [])"
proof -
  have h: "which sample_world (file_name (sample_request\<lparr>file_name := ''nosuch''\<rparr>))
             (search_paths sample_world) = []"
    by (simp add: which_def sample_world_def sample_request_def)
  show ?thesis
    using not_found_yields_127 [OF h, of sample_processor]
    by (simp add: prod_eq_iff sample_request_def)
qed


subsection \<open>I/O multiplexer\<close>





lemma read_pipe_events:
  assumes "read_pipe it rs p s = (r, evs)"
  shows "\<forall>ev \<in> set evs. loop_only ev \<and> ev \<noteq> Ev_command_timedout b \<and> \<not> is_reap ev
           \<and> ev \<noteq> Ev_timer_handler \<and> ev \<noteq> Ev_write fd msg wr"
  using assms
  by (auto simp: read_pipe_def Let_def split: if_splits read_result.splits prod.splits)

lemma read_pipe_throw:
  assumes "read_pipe it rs p s = (Pipe_throw e, evs)"
  shows "e = Execution_exception ''failed to read child output.'' \<and> list_ex hard_failure evs"
  using assms
  by (auto simp: read_pipe_def Let_def split: if_splits read_result.splits prod.splits)







lemma write_input_props:
  "write_input it ws st = (r, evs) \<Longrightarrow>
     (\<forall>ev \<in> set evs. loop_only ev \<and> ev \<noteq> Ev_command_timedout b \<and> \<not> is_reap ev
         \<and> ev \<noteq> Ev_timer_handler \<and> (\<forall>n fd rr. ev \<noteq> Ev_read n fd rr))
     \<and> (\<forall>e. r = Step_throw e \<longrightarrow>
            e = Execution_exception ''failed to write child input.'' \<and> list_ex hard_failure evs)
     \<and> ((\<forall>e. r \<noteq> Step_throw e) \<longrightarrow> \<not> list_ex hard_failure evs)
     \<and> (\<forall>n c go. Ev_callback n c go \<notin> set evs)
     \<and> (\<forall>s'. r \<noteq> Step_return s')
     \<and> (\<forall>n. callback_chunks n evs = [] \<and> read_chunks n evs = [])"
  by (auto simp: write_input_def Let_def split: if_splits write_result.splits)

lemma read_pipes_events:
  "read_pipes it rs ps s = (r, evs) \<Longrightarrow>
     \<forall>ev \<in> set evs. loop_only ev \<and> ev \<noteq> Ev_command_timedout b \<and> \<not> is_reap ev
        \<and> ev \<noteq> Ev_timer_handler \<and> ev \<noteq> Ev_write fd msg wr"
proof (induction ps arbitrary: s r evs)
  case Nil
  then show ?case by auto
next
  case (Cons p ps)
  obtain r1 evs1 where one: "read_pipe it rs p s = (r1, evs1)" by force
  note e1 = read_pipe_events [OF one, of b fd msg wr]
  show ?case
  proof (cases r1)
    case (Pipe_continue p' s')
    obtain r2 evs2 where rest: "read_pipes it rs ps s' = (r2, evs2)" by force
    have evs: "evs = evs1 @ evs2"
      using Cons.prems(1) one Pipe_continue rest by (cases r2) auto
    show ?thesis
      using e1 Cons.IH [OF rest] unfolding evs by (simp add: ball_Un)
  next
    case (Pipe_return s')
    then have "evs = evs1" using Cons.prems one by auto
    then show ?thesis using e1 by simp
  next
    case (Pipe_throw e)
    then have "evs = evs1" using Cons.prems one by auto
    then show ?thesis using e1 by simp
  qed
qed

lemma read_pipes_throw:
  "read_pipes it rs ps s = (For_throw e, evs) \<Longrightarrow>
     e = Execution_exception ''failed to read child output.'' \<and> list_ex hard_failure evs"
proof (induction ps arbitrary: s evs)
  case Nil
  then show ?case by auto
next
  case (Cons p ps)
  obtain r1 evs1 where one: "read_pipe it rs p s = (r1, evs1)" by force
  show ?case
  proof (cases r1)
    case (Pipe_continue p' s')
    obtain r2 evs2 where rest: "read_pipes it rs ps s' = (r2, evs2)" by force
    have "evs = evs1 @ evs2 \<and> r2 = For_throw e"
      using Cons.prems(1) one Pipe_continue rest by (cases r2) auto
    then show ?thesis
      using Cons.IH [of s' evs2] rest by simp
  next
    case (Pipe_return s')
    then show ?thesis using Cons.prems one by auto
  next
    case (Pipe_throw e')
    then have "e' = e" "evs = evs1" using Cons.prems one by auto
    then show ?thesis using read_pipe_throw [of it rs p s e evs1] one Pipe_throw by simp
  qed
qed




lemma length_resize: "length (resize n b) = n"
  by (simp add: resize_def)


text \<open>The shapes one turn of the loop can take.\<close>

lemma rw_iteration_cases:
  assumes "rw_iteration child tmo it st = (r, evs)"
  obtains
    (timedout) "command_timedout st"
      "r = Step_throw (Timeout_exception
                         (''command timed out after '' @ show_nat tmo @ '' seconds.'')
                         (size_t_of_pid child))"
      "evs = [Ev_command_timedout True]"
  | (closed) "\<not> command_timedout st"
      "max_descriptor (map prepare_pipe (pipes st)) (input_first st) = - 1"
      "r = Step_return (streams st)" "evs = [Ev_command_timedout False]"
  | (select_failed) rs ws t e where "e \<noteq> EINTR"
      "r = Step_throw (Execution_exception ''failed to read child output.'')"
      "evs = [Ev_command_timedout False, Ev_select rs ws t (Select_failed e)]"
  | (select_again) rs ws t sel where "\<not> hard_failure (Ev_select rs ws t sel)"
      "r = Step_continue (st\<lparr>pipes := map prepare_pipe (pipes st)\<rparr>)"
      "evs = [Ev_command_timedout False, Ev_select rs ws t sel]"
  | (reads_left) rs ws t sel rs' fr evs' where
      "\<not> hard_failure (Ev_select rs ws t sel)"
      "read_pipes it rs' (map prepare_pipe (pipes st)) (streams st) = (fr, evs')"
      "(\<exists>e. fr = For_throw e \<and> r = Step_throw e) \<or> (\<exists>s'. fr = For_return s' \<and> r = Step_return s')"
      "evs = [Ev_command_timedout False, Ev_select rs ws t sel] @ evs'"
  | (written) rs ws t sel rs' ws' ps' s' evs1 evs2 where
      "\<not> hard_failure (Ev_select rs ws t sel)"
      "read_pipes it rs' (map prepare_pipe (pipes st)) (streams st) = (For_done ps' s', evs1)"
      "write_input it ws' (st\<lparr>pipes := ps', streams := s'\<rparr>) = (r, evs2)"
      "evs = [Ev_command_timedout False, Ev_select rs ws t sel] @ evs1 @ evs2"
proof (cases "command_timedout st")
  case True
  with assms timedout show ?thesis by (simp add: rw_iteration_def)
next
  case nt: False
  define ps where "ps = map prepare_pipe (pipes st)"
  define rs where "rs = read_set_of ps"
  define ws where "ws = (if input_first st \<noteq> - 1 then [input_first st] else [])"
  define t where "t = (tmo \<noteq> 0)"
  define pre where "pre = [Ev_command_timedout False, Ev_select rs ws t (it_select it)]"
  have body: "rw_iteration child tmo it st =
     (if max_descriptor ps (input_first st) = - 1
      then (Step_return (streams st), [Ev_command_timedout False])
      else case it_select it of
             Select_failed e \<Rightarrow>
               if e \<noteq> EINTR
               then (Step_throw (Execution_exception ''failed to read child output.''), pre)
               else (Step_continue (st\<lparr>pipes := ps\<rparr>), pre)
           | Select_ready ready_r ready_w \<Rightarrow>
               if filter (\<lambda>fd. fd \<in> set ready_r) rs = [] \<and> filter (\<lambda>fd. fd \<in> set ready_w) ws = []
               then (Step_continue (st\<lparr>pipes := ps\<rparr>), pre)
               else (case read_pipes it (filter (\<lambda>fd. fd \<in> set ready_r) rs) ps (streams st) of
                       (For_throw e, evs) \<Rightarrow> (Step_throw e, pre @ evs)
                     | (For_return s', evs) \<Rightarrow> (Step_return s', pre @ evs)
                     | (For_done ps' s', evs) \<Rightarrow>
                         (case write_input it (filter (\<lambda>fd. fd \<in> set ready_w) ws)
                                 (st\<lparr>pipes := ps', streams := s'\<rparr>) of
                            (r, evs') \<Rightarrow> (r, pre @ evs @ evs'))))"
    unfolding rw_iteration_def Let_def ps_def rs_def ws_def t_def pre_def
    using nt by (simp only: if_False)
  show ?thesis
  proof (cases "max_descriptor ps (input_first st) = - 1")
    case True
    with assms body have "r = Step_return (streams st)" "evs = [Ev_command_timedout False]"
      by simp_all
    with nt True closed show ?thesis unfolding ps_def by blast
  next
    case open_fd: False
    show ?thesis
    proof (cases "it_select it")
      case (Select_failed e)
      have pre: "pre = [Ev_command_timedout False, Ev_select rs ws t (Select_failed e)]"
        by (simp add: pre_def Select_failed)
      show ?thesis
      proof (cases "e = EINTR")
        case True
        with assms body open_fd Select_failed
        have "r = Step_continue (st\<lparr>pipes := map prepare_pipe (pipes st)\<rparr>)" "evs = pre"
          by (simp_all add: ps_def)
        moreover have "\<not> hard_failure (Ev_select rs ws t (Select_failed e))"
          using True by simp
        ultimately show ?thesis using select_again pre by blast
      next
        case False
        with assms body open_fd Select_failed
        have "r = Step_throw (Execution_exception ''failed to read child output.'')" "evs = pre"
          by simp_all
        with False select_failed pre show ?thesis by blast
      qed
    next
      case (Select_ready ready_r ready_w)
      have pre: "pre = [Ev_command_timedout False, Ev_select rs ws t (Select_ready ready_r ready_w)]"
        by (simp add: pre_def Select_ready)
      have nh: "\<not> hard_failure (Ev_select rs ws t (Select_ready ready_r ready_w))" by simp
      define rs' where "rs' = filter (\<lambda>fd. fd \<in> set ready_r) rs"
      define ws' where "ws' = filter (\<lambda>fd. fd \<in> set ready_w) ws"
      have body2: "rw_iteration child tmo it st =
         (if rs' = [] \<and> ws' = []
          then (Step_continue (st\<lparr>pipes := ps\<rparr>), pre)
          else (case read_pipes it rs' ps (streams st) of
                  (For_throw e, evs) \<Rightarrow> (Step_throw e, pre @ evs)
                | (For_return s', evs) \<Rightarrow> (Step_return s', pre @ evs)
                | (For_done ps' s', evs) \<Rightarrow>
                    (case write_input it ws' (st\<lparr>pipes := ps', streams := s'\<rparr>) of
                       (r, evs') \<Rightarrow> (r, pre @ evs @ evs'))))"
        unfolding body rs'_def ws'_def using open_fd Select_ready by simp
      show ?thesis
      proof (cases "rs' = [] \<and> ws' = []")
        case True
        with assms body2
        have "r = Step_continue (st\<lparr>pipes := map prepare_pipe (pipes st)\<rparr>)" "evs = pre"
          by (simp_all add: ps_def)
        with nh select_again pre show ?thesis by blast
      next
        case ready: False
        obtain fr evs1 where reads: "read_pipes it rs' ps (streams st) = (fr, evs1)" by force
        note reads' = reads [unfolded ps_def]
        note body3 = body2 [unfolded if_not_P [OF ready] reads]
        note run = assms [unfolded body3]
        show ?thesis
        proof (cases fr)
          case (For_done ps' s')
          obtain r2 evs2 where wr: "write_input it ws' (st\<lparr>pipes := ps', streams := s'\<rparr>) = (r2, evs2)"
            by force
          from run For_done wr
          have "r = r2" "evs = pre @ evs1 @ evs2"
            by simp_all
          with wr have "write_input it ws' (st\<lparr>pipes := ps', streams := s'\<rparr>) = (r, evs2)"
            "evs = [Ev_command_timedout False, Ev_select rs ws t (Select_ready ready_r ready_w)] @ evs1 @ evs2"
            by (simp_all add: pre)
          then show ?thesis
            using written [OF nh reads' [unfolded For_done]] by blast
        next
          case (For_return s')
          from run For_return
          have "r = Step_return s'" "evs = pre @ evs1"
            by simp_all
          then have "(\<exists>e. fr = For_throw e \<and> r = Step_throw e) \<or> (\<exists>s'. fr = For_return s' \<and> r = Step_return s')"
            "evs = [Ev_command_timedout False, Ev_select rs ws t (Select_ready ready_r ready_w)] @ evs1"
            using For_return by (simp_all add: pre)
          then show ?thesis using reads_left [OF nh reads'] by blast
        next
          case (For_throw e)
          from run For_throw
          have "r = Step_throw e" "evs = pre @ evs1"
            by simp_all
          then have "(\<exists>e. fr = For_throw e \<and> r = Step_throw e) \<or> (\<exists>s'. fr = For_return s' \<and> r = Step_return s')"
            "evs = [Ev_command_timedout False, Ev_select rs ws t (Select_ready ready_r ready_w)] @ evs1"
            using For_throw by (simp_all add: pre)
          then show ?thesis using reads_left [OF nh reads'] by blast
        qed
      qed
    qed
  qed
qed

lemma rw_iteration_events:
  assumes "rw_iteration child tmo it st = (r, evs)"
  shows "\<forall>ev \<in> set evs. loop_only ev \<and> \<not> is_reap ev \<and> ev \<noteq> Ev_timer_handler"
  using assms
proof (cases rule: rw_iteration_cases)
  case (reads_left rs ws t sel rs' fr evs')
  have "\<forall>ev \<in> set evs'. loop_only ev \<and> \<not> is_reap ev \<and> ev \<noteq> Ev_timer_handler"
    using read_pipes_events [OF reads_left(2), of True 0 "[]" "Written 0"] by blast
  then show ?thesis using reads_left(4) by simp
next
  case (written rs ws t sel rs' ws' ps' s' evs1 evs2)
  have "\<forall>ev \<in> set evs1. loop_only ev \<and> \<not> is_reap ev \<and> ev \<noteq> Ev_timer_handler"
    using read_pipes_events [OF written(2), of True 0 "[]" "Written 0"] by blast
  moreover have "\<forall>ev \<in> set evs2. loop_only ev \<and> \<not> is_reap ev \<and> ev \<noteq> Ev_timer_handler"
    using write_input_props [OF written(3), of True] by blast
  ultimately show ?thesis using written(4) by (simp add: ball_Un)
qed auto




lemma rw_iteration_throw:
  assumes "rw_iteration child tmo it st = (Step_throw e, evs)"
  shows "(e = Timeout_exception (''command timed out after '' @ show_nat tmo @ '' seconds.'')
                (size_t_of_pid child)
          \<and> Ev_command_timedout True \<in> set evs)
       \<or> ((e = Execution_exception ''failed to read child output.''
            \<or> e = Execution_exception ''failed to write child input.'')
          \<and> list_ex hard_failure evs)"
  using assms
proof (cases rule: rw_iteration_cases)
  case (reads_left rs ws t sel rs' fr evs')
  then have fr: "fr = For_throw e" by auto
  note read_pipes_throw [OF reads_left(2) [unfolded fr]]
  then show ?thesis using reads_left(4) by simp
next
  case (written rs ws t sel rs' ws' ps' s' evs1 evs2)
  have "e = Execution_exception ''failed to write child input.'' \<and> list_ex hard_failure evs2"
    using write_input_props [OF written(3), of True] by simp
  then show ?thesis using written(4) by simp
qed auto




lemma delivered_plain [simp]:
  "\<forall>ev \<in> set (delivered it). loop_only ev \<and> \<not> is_reap ev"
  "callback_chunks n (delivered it) = []" "read_chunks n (delivered it) = []"
  "Ev_callback n c go \<notin> set (delivered it)" "Ev_command_timedout b \<notin> set (delivered it)"
  "\<not> list_ex hard_failure (delivered it)" "\<not> list_ex is_flag_test (delivered it)"
  "\<not> tested_after_handler (delivered it)"
  by (simp_all add: delivered_def)

lemma rw_from_child_Cons:
  assumes "rw_iteration child tmo it st = (r1, evs1)"
  shows "rw_from_child child st tmo (it # its) =
     (case r1 of
        Step_throw e \<Rightarrow> (Loop_throw e, evs1 @ delivered it)
      | Step_return s \<Rightarrow> (Loop_return s, evs1 @ delivered it)
      | Step_continue st' \<Rightarrow>
          (fst (rw_from_child child (deliver it st') tmo its),
           evs1 @ delivered it @ snd (rw_from_child child (deliver it st') tmo its)))"
  using assms by (simp add: split_beta split: step.splits)






lemma rw_from_child_throw:
  "rw_from_child child st tmo its = (Loop_throw e, evs) \<Longrightarrow>
     (e = Timeout_exception (''command timed out after '' @ show_nat tmo @ '' seconds.'')
            (size_t_of_pid child)
      \<and> Ev_command_timedout True \<in> set evs)
   \<or> ((e = Execution_exception ''failed to read child output.''
        \<or> e = Execution_exception ''failed to write child input.'')
      \<and> list_ex hard_failure evs)"
proof (induction its arbitrary: st evs)
  case Nil
  then show ?case by simp
next
  case (Cons it its)
  obtain r1 evs1 where one: "rw_iteration child tmo it st = (r1, evs1)" by force
  show ?case
  proof (cases r1)
    case (Step_continue st')
    obtain r2 evs2 where rest: "rw_from_child child (deliver it st') tmo its = (r2, evs2)" by force
    have eq: "evs = evs1 @ delivered it @ evs2" "r2 = Loop_throw e"
      using Cons.prems(1) rw_from_child_Cons [OF one, of its] Step_continue rest by simp_all
    show ?thesis using Cons.IH [OF rest [unfolded eq(2)]] eq(1) by auto
  next
    case (Step_return s)
    then show ?thesis using Cons.prems(1) rw_from_child_Cons [OF one, of its] by simp
  next
    case (Step_throw e')
    then have "evs = evs1 @ delivered it" "e' = e"
      using Cons.prems(1) rw_from_child_Cons [OF one, of its] by simp_all
    then show ?thesis using rw_iteration_throw [of child tmo it st e evs1] one Step_throw by simp
  qed
qed


subsection \<open>The sample run, evaluated\<close>

lemmas sample_defs = sample_world_def sample_request_def sample_processor_def hello_turn_def
  closing_turn_def sample_descriptors_def expired_turn_def failing_turn_def interrupted_turn_def
  busy_turn_def stopping_processor_def sample_state_def

lemmas loop_defs = read_streams_def rw_iteration_def read_pipe_def write_input_def
  prepare_pipe_def read_set_of_def max_descriptor_def length_resize Let_def
  deliver_def delivered_def timer_handler_def

subsection \<open>Chunks and interruptions\<close>




text \<open>What the first loop over the pipes leaves as it is.\<close>

lemma fold_max_prepare:
  "fold (\<lambda>p m. if descriptor p \<noteq> - 1 \<and> descriptor p > m then descriptor p else m)
     (map prepare_pipe ps) m
   = fold (\<lambda>p m. if descriptor p \<noteq> - 1 \<and> descriptor p > m then descriptor p else m) ps m"
  by (induction ps arbitrary: m) (simp_all add: prepare_pipe_def)

lemma max_descriptor_prepare: "max_descriptor (map prepare_pipe ps) i = max_descriptor ps i"
  by (simp add: max_descriptor_def fold_max_prepare)

lemma read_set_of_prepare: "read_set_of (map prepare_pipe ps) = read_set_of ps"
  by (induction ps) (simp_all add: read_set_of_def prepare_pipe_def)

lemma fold_max_ge:
  "m \<le> fold (\<lambda>p m. if descriptor p \<noteq> - 1 \<and> descriptor p > m then descriptor p else m) ps m"
proof (induction ps arbitrary: m)
  case Nil
  show ?case by simp
next
  case (Cons q ps)
  define m' where "m' = (if descriptor q \<noteq> - 1 \<and> descriptor q > m then descriptor q else m)"
  have "m \<le> m'" by (simp add: m'_def)
  moreover have "m' \<le> fold (\<lambda>p m. if descriptor p \<noteq> - 1 \<and> descriptor p > m
                                    then descriptor p else m) ps m'"
    by (rule Cons.IH)
  ultimately show ?case by (simp add: m'_def [symmetric])
qed

lemma fold_max_member:
  "p \<in> set ps \<Longrightarrow> descriptor p \<noteq> - 1 \<Longrightarrow>
     descriptor p
       \<le> fold (\<lambda>p m. if descriptor p \<noteq> - 1 \<and> descriptor p > m then descriptor p else m) ps m"
proof (induction ps arbitrary: m)
  case Nil
  then show ?case by simp
next
  case (Cons q ps)
  define m' where "m' = (if descriptor q \<noteq> - 1 \<and> descriptor q > m then descriptor q else m)"
  show ?case
  proof (cases "p = q")
    case True
    have "descriptor p \<le> m'" using Cons.prems(2) True by (simp add: m'_def)
    moreover have "m' \<le> fold (\<lambda>p m. if descriptor p \<noteq> - 1 \<and> descriptor p > m
                                      then descriptor p else m) ps m'"
      by (rule fold_max_ge)
    ultimately show ?thesis by (simp add: m'_def [symmetric])
  next
    case False
    then have "p \<in> set ps" using Cons.prems by simp
    from Cons.IH [OF this Cons.prems(2), of m'] show ?thesis by (simp add: m'_def [symmetric])
  qed
qed

lemma max_descriptor_ge_pipe:
  "p \<in> set ps \<Longrightarrow> descriptor p \<noteq> - 1 \<Longrightarrow> descriptor p \<le> max_descriptor ps i"
  using fold_max_member [of p ps "- 1"] by (simp add: max_descriptor_def Let_def)

lemma max_descriptor_ge_input: "i \<le> max_descriptor ps i \<or> i = - 1"
  by (simp add: max_descriptor_def Let_def)

lemma rw_iteration_head:
  assumes "\<not> command_timedout st"
    "max_descriptor (map prepare_pipe (pipes st)) (input_first st) \<noteq> - 1"
  shows "\<exists>rest. snd (rw_iteration child tmo it st)
           = [Ev_command_timedout False,
              Ev_select (read_set_of (map prepare_pipe (pipes st)))
                (if input_first st \<noteq> - 1 then [input_first st] else []) (tmo \<noteq> 0)
                (it_select it)] @ rest"
  using assms
  by (auto simp: rw_iteration_def Let_def
           split: select_result.splits for_result.splits prod.splits)

lemma read_pipe_interrupted:
  "read_pipe it rs p s = (Pipe_continue p' s', evs) \<Longrightarrow>
     Ev_read n fd (Read_failed EINTR) \<in> set evs \<Longrightarrow>
     name p' = n \<and> descriptor p' = fd \<and> fd \<noteq> - 1"
  by (auto simp: read_pipe_def Let_def split: if_splits read_result.splits prod.splits)

lemma read_pipes_interrupted:
  "read_pipes it rs ps s = (For_done ps' s', evs) \<Longrightarrow>
     Ev_read n fd (Read_failed EINTR) \<in> set evs \<Longrightarrow>
     \<exists>p \<in> set ps'. name p = n \<and> descriptor p = fd \<and> fd \<noteq> - 1"
proof (induction ps arbitrary: s ps' evs)
  case Nil
  then show ?case by auto
next
  case (Cons q ps)
  obtain r1 evs1 where one: "read_pipe it rs q s = (r1, evs1)" by force
  show ?case
  proof (cases r1)
    case (Pipe_continue q' s1)
    obtain r2 evs2 where rest: "read_pipes it rs ps s1 = (r2, evs2)" by force
    obtain ps2 where eq: "r2 = For_done ps2 s'" "ps' = q' # ps2" "evs = evs1 @ evs2"
      using Cons.prems(1) one Pipe_continue rest by (cases r2) auto
    from Cons.prems(2) eq(3)
    consider "Ev_read n fd (Read_failed EINTR) \<in> set evs1"
      | "Ev_read n fd (Read_failed EINTR) \<in> set evs2" by auto
    then show ?thesis
    proof cases
      case 1
      from read_pipe_interrupted [OF one [unfolded Pipe_continue] 1] show ?thesis
        using eq(2) by simp
    next
      case 2
      from Cons.IH [OF rest [unfolded eq(1)] 2] show ?thesis using eq(2) by auto
    qed
  next
    case (Pipe_return s1)
    then show ?thesis using Cons.prems(1) one by auto
  next
    case (Pipe_throw e)
    then show ?thesis using Cons.prems(1) one by auto
  qed
qed

lemma write_input_keeps:
  "write_input it ws st = (Step_continue st', evs) \<Longrightarrow>
     pipes st' = pipes st \<and> command_timedout st' = command_timedout st
     \<and> streams st' = streams st"
  by (auto simp: write_input_def Let_def split: if_splits write_result.splits)

lemma write_input_interrupted:
  "write_input it ws st = (r, evs) \<Longrightarrow> Ev_write fd msg (Write_failed EINTR) \<in> set evs \<Longrightarrow>
     r = Step_continue st \<and> input_first st = fd \<and> input_second st = msg \<and> fd \<noteq> - 1"
  by (auto simp: write_input_def Let_def split: if_splits write_result.splits)

lemma rw_iteration_flag:
  "rw_iteration child tmo it st = (Step_continue st', evs) \<Longrightarrow> \<not> command_timedout st"
  by (cases "command_timedout st") (simp_all add: rw_iteration_def)

lemma rw_iteration_read_interrupted:
  assumes "rw_iteration child tmo it st = (Step_continue st', evs)"
    "Ev_read n fd (Read_failed EINTR) \<in> set evs"
  shows "\<not> command_timedout st'
       \<and> (\<exists>p \<in> set (pipes st'). name p = n \<and> descriptor p = fd \<and> fd \<noteq> - 1)"
  using assms(1)
proof (cases rule: rw_iteration_cases)
  case (written rs ws t sel rs' ws' ps' s' evs1 evs2)
  have "Ev_read n fd (Read_failed EINTR) \<notin> set evs2"
    using write_input_props [OF written(3), of True] by blast
  then have "Ev_read n fd (Read_failed EINTR) \<in> set evs1" using assms(2) written(4) by simp
  from read_pipes_interrupted [OF written(2) this] write_input_keeps [OF written(3)]
    rw_iteration_flag [OF assms(1)]
  show ?thesis by simp
qed (use assms(2) in auto)

lemma rw_iteration_write_interrupted:
  assumes "rw_iteration child tmo it st = (Step_continue st', evs)"
    "Ev_write fd msg (Write_failed EINTR) \<in> set evs"
  shows "\<not> command_timedout st' \<and> input_first st' = fd \<and> input_second st' = msg \<and> fd \<noteq> - 1"
  using assms(1)
proof (cases rule: rw_iteration_cases)
  case (written rs ws t sel rs' ws' ps' s' evs1 evs2)
  have "Ev_write fd msg (Write_failed EINTR) \<notin> set evs1"
    using read_pipes_events [OF written(2), of True fd msg "Write_failed EINTR"] by blast
  then have "Ev_write fd msg (Write_failed EINTR) \<in> set evs2" using assms(2) written(4) by simp
  from write_input_interrupted [OF written(3) this] rw_iteration_flag [OF assms(1)]
  show ?thesis by auto
qed (use assms(2) in auto)

lemma read_pipe_visits:
  "read_pipe it rs p s = (r, evs) \<Longrightarrow> descriptor p \<noteq> - 1 \<Longrightarrow> descriptor p \<in> set rs \<Longrightarrow>
     \<exists>x. Ev_read (name p) (descriptor p) x \<in> set evs"
  by (auto simp: read_pipe_def Let_def split: if_splits read_result.splits prod.splits)

lemma read_pipe_return:
  "read_pipe it rs p s = (Pipe_return s', evs) \<Longrightarrow> \<exists>n c. Ev_callback n c False \<in> set evs"
  by (auto simp: read_pipe_def Let_def split: if_splits read_result.splits prod.splits)

lemma read_pipes_return:
  "read_pipes it rs ps s = (For_return s', evs) \<Longrightarrow> \<exists>n c. Ev_callback n c False \<in> set evs"
proof (induction ps arbitrary: s evs)
  case Nil
  then show ?case by auto
next
  case (Cons q ps)
  obtain r1 evs1 where one: "read_pipe it rs q s = (r1, evs1)" by force
  show ?case
  proof (cases r1)
    case (Pipe_continue q' s1)
    obtain r2 evs2 where rest: "read_pipes it rs ps s1 = (r2, evs2)" by force
    have eq: "r2 = For_return s'" "evs = evs1 @ evs2"
      using Cons.prems(1) one Pipe_continue rest by (cases r2; auto)+
    from Cons.IH [OF rest [unfolded eq(1)]] show ?thesis using eq(2) by auto
  next
    case (Pipe_return s1)
    then have "evs = evs1" using Cons.prems(1) one by auto
    then show ?thesis using read_pipe_return [OF one [unfolded Pipe_return]] by simp
  next
    case (Pipe_throw e)
    then show ?thesis using Cons.prems(1) one by auto
  qed
qed

text \<open>
  The second loop over the pipes reads every open pipe whose descriptor is ready, unless
  it is left before by a failed read or by a callback's request to stop.
\<close>

lemma read_pipes_visits:
  "read_pipes it rs ps s = (fr, evs) \<Longrightarrow> p \<in> set ps \<Longrightarrow> descriptor p \<noteq> - 1 \<Longrightarrow>
     descriptor p \<in> set rs \<Longrightarrow>
     (\<exists>x. Ev_read (name p) (descriptor p) x \<in> set evs)
     \<or> list_ex hard_failure evs \<or> (\<exists>n c. Ev_callback n c False \<in> set evs)"
proof (induction ps arbitrary: s fr evs)
  case Nil
  then show ?case by simp
next
  case (Cons q ps)
  obtain r1 evs1 where one: "read_pipe it rs q s = (r1, evs1)" by force
  show ?case
  proof (cases r1)
    case (Pipe_continue q' s1)
    obtain r2 evs2 where rest: "read_pipes it rs ps s1 = (r2, evs2)" by force
    have eq: "evs = evs1 @ evs2"
      using Cons.prems(1) one Pipe_continue rest by (cases r2) auto
    show ?thesis
    proof (cases "p = q")
      case True
      from read_pipe_visits [OF one] Cons.prems(3,4) True eq show ?thesis by auto
    next
      case False
      then have "p \<in> set ps" using Cons.prems(2) by simp
      from Cons.IH [OF rest this Cons.prems(3,4)] eq show ?thesis by auto
    qed
  next
    case (Pipe_return s1)
    then have "evs = evs1" using Cons.prems(1) one by auto
    then show ?thesis using read_pipe_return [OF one [unfolded Pipe_return]] by simp
  next
    case (Pipe_throw e)
    then have "evs = evs1" using Cons.prems(1) one by auto
    then show ?thesis using read_pipe_throw [OF one [unfolded Pipe_throw]] by simp
  qed
qed

lemma write_input_visits:
  "input_first st \<noteq> - 1 \<Longrightarrow> input_first st \<in> set ws \<Longrightarrow>
     \<exists>x. Ev_write (input_first st) (input_second st) x \<in> set (snd (write_input it ws st))"
  by (auto simp: write_input_def Let_def split: if_splits write_result.splits)

text \<open>A turn in which \<open>select\<close> reports at least one descriptor ready.\<close>

lemma rw_iteration_ready:
  assumes "\<not> command_timedout st"
    and "max_descriptor (map prepare_pipe (pipes st)) (input_first st) \<noteq> - 1"
    and "it_select it = Select_ready rr rw"
    and "filter (\<lambda>fd. fd \<in> set rr) (read_set_of (map prepare_pipe (pipes st))) \<noteq> []
         \<or> filter (\<lambda>fd. fd \<in> set rw) (if input_first st \<noteq> - 1 then [input_first st] else []) \<noteq> []"
    and "read_pipes it (filter (\<lambda>fd. fd \<in> set rr) (read_set_of (map prepare_pipe (pipes st))))
           (map prepare_pipe (pipes st)) (streams st) = (fr, evs1)"
  shows "snd (rw_iteration child tmo it st)
      = [Ev_command_timedout False,
         Ev_select (read_set_of (map prepare_pipe (pipes st)))
           (if input_first st \<noteq> - 1 then [input_first st] else []) (tmo \<noteq> 0) (it_select it)]
        @ evs1
        @ (case fr of
             For_done ps' s' \<Rightarrow>
               snd (write_input it
                      (filter (\<lambda>fd. fd \<in> set rw)
                         (if input_first st \<noteq> - 1 then [input_first st] else []))
                      (st\<lparr>pipes := ps', streams := s'\<rparr>))
           | For_return s' \<Rightarrow> []
           | For_throw e \<Rightarrow> [])"
proof -
  have ready: "\<not> (filter (\<lambda>fd. fd \<in> set rr) (read_set_of (map prepare_pipe (pipes st))) = []
         \<and> filter (\<lambda>fd. fd \<in> set rw) (if input_first st \<noteq> - 1 then [input_first st] else []) = [])"
    using assms(4) by blast
  show ?thesis
    unfolding rw_iteration_def Let_def
    apply (simp only: assms(1) if_False if_not_P [OF assms(2)] assms(3) select_result.case
             if_not_P [OF ready] assms(5) prod.case)
    apply (cases fr)
      apply (simp_all only: for_result.case prod.case snd_conv split_beta append_Nil2)
    done
qed

text \<open>The turn after an interrupted read, and the turn after an interrupted write.\<close>

lemma next_turn_reads:
  assumes "\<not> command_timedout st" "p \<in> set (pipes st)" "descriptor p = fd" "name p = n"
    "0 \<le> fd"
  shows "\<exists>rs ws rest.
           snd (rw_iteration child tmo it st)
             = [Ev_command_timedout False, Ev_select rs ws (tmo \<noteq> 0) (it_select it)] @ rest
         \<and> fd \<in> set rs
         \<and> (ready_to_read (it_select it) fd \<longrightarrow>
              (\<exists>x. Ev_read n fd x \<in> set rest) \<or> list_ex hard_failure rest
              \<or> (\<exists>n' c. Ev_callback n' c False \<in> set rest))"
proof -
  define q where "q = prepare_pipe p"
  have q: "q \<in> set (map prepare_pipe (pipes st))" "descriptor q = fd" "name q = n"
    "descriptor q \<noteq> - 1"
    using assms by (auto simp: q_def prepare_pipe_def)
  have fd: "fd \<in> set (read_set_of (map prepare_pipe (pipes st)))"
    using q(1,2,4) by (force simp: read_set_of_def)
  have mx: "max_descriptor (map prepare_pipe (pipes st)) (input_first st) \<noteq> - 1"
    using max_descriptor_ge_pipe [OF q(1) q(4), of "input_first st"] q(2) assms(5) by simp
  obtain rest where head: "snd (rw_iteration child tmo it st)
      = [Ev_command_timedout False,
         Ev_select (read_set_of (map prepare_pipe (pipes st)))
           (if input_first st \<noteq> - 1 then [input_first st] else []) (tmo \<noteq> 0) (it_select it)]
        @ rest"
    using rw_iteration_head [OF assms(1) mx] by blast
  have "ready_to_read (it_select it) fd \<longrightarrow>
          (\<exists>x. Ev_read n fd x \<in> set rest) \<or> list_ex hard_failure rest
          \<or> (\<exists>n' c. Ev_callback n' c False \<in> set rest)"
  proof
    assume "ready_to_read (it_select it) fd"
    then obtain rr rw where sel: "it_select it = Select_ready rr rw" "fd \<in> set rr"
      by (cases "it_select it") auto
    obtain fr evs1 where reads:
      "read_pipes it (filter (\<lambda>fd. fd \<in> set rr) (read_set_of (map prepare_pipe (pipes st))))
         (map prepare_pipe (pipes st)) (streams st) = (fr, evs1)" by force
    have in_rs: "descriptor q
        \<in> set (filter (\<lambda>fd. fd \<in> set rr) (read_set_of (map prepare_pipe (pipes st))))"
      using fd sel(2) q(2) by simp
    have "filter (\<lambda>fd. fd \<in> set rr) (read_set_of (map prepare_pipe (pipes st))) \<noteq> []"
    proof
      assume e: "filter (\<lambda>fd. fd \<in> set rr) (read_set_of (map prepare_pipe (pipes st))) = []"
      show False using in_rs unfolding e by simp
    qed
    then have ne: "filter (\<lambda>fd. fd \<in> set rr) (read_set_of (map prepare_pipe (pipes st))) \<noteq> []
         \<or> filter (\<lambda>fd. fd \<in> set rw) (if input_first st \<noteq> - 1 then [input_first st] else []) \<noteq> []"
      by (rule disjI1)
    note body = rw_iteration_ready [OF assms(1) mx sel(1) ne reads, of child tmo]
    define more where "more = (case fr of
             For_done ps' s' \<Rightarrow>
               snd (write_input it
                      (filter (\<lambda>fd. fd \<in> set rw)
                         (if input_first st \<noteq> - 1 then [input_first st] else []))
                      (st\<lparr>pipes := ps', streams := s'\<rparr>))
           | For_return s' \<Rightarrow> []
           | For_throw e \<Rightarrow> [])"
    have "[Ev_command_timedout False,
           Ev_select (read_set_of (map prepare_pipe (pipes st)))
             (if input_first st \<noteq> - 1 then [input_first st] else []) (tmo \<noteq> 0)
             (it_select it)] @ rest
        = [Ev_command_timedout False,
           Ev_select (read_set_of (map prepare_pipe (pipes st)))
             (if input_first st \<noteq> - 1 then [input_first st] else []) (tmo \<noteq> 0)
             (it_select it)] @ evs1 @ more"
      using head body [folded more_def] by (rule trans [OF sym])
    then have "rest = evs1 @ more" by (simp only: same_append_eq)
    then have "set evs1 \<subseteq> set rest" by simp
    moreover note read_pipes_visits [OF reads q(1) q(4) in_rs]
    ultimately show "(\<exists>x. Ev_read n fd x \<in> set rest) \<or> list_ex hard_failure rest
          \<or> (\<exists>n' c. Ev_callback n' c False \<in> set rest)"
      using q(2,3) by (auto simp: list_ex_iff)
  qed
  then show ?thesis using head fd by blast
qed

lemma next_turn_writes:
  assumes "\<not> command_timedout st" "input_first st = fd" "input_second st = msg" "0 \<le> fd"
  shows "\<exists>rs rest.
           snd (rw_iteration child tmo it st)
             = [Ev_command_timedout False, Ev_select rs [fd] (tmo \<noteq> 0) (it_select it)] @ rest
         \<and> (ready_to_write (it_select it) fd \<longrightarrow>
              (\<exists>x. Ev_write fd msg x \<in> set rest) \<or> list_ex hard_failure rest
              \<or> (\<exists>n' c. Ev_callback n' c False \<in> set rest))"
proof -
  have open_fd: "input_first st \<noteq> - 1" using assms(2,4) by simp
  have mx: "max_descriptor (map prepare_pipe (pipes st)) (input_first st) \<noteq> - 1"
    using max_descriptor_ge_input [of "input_first st" "map prepare_pipe (pipes st)"] assms(2,4)
    by simp
  obtain rest where head: "snd (rw_iteration child tmo it st)
      = [Ev_command_timedout False,
         Ev_select (read_set_of (map prepare_pipe (pipes st)))
           (if input_first st \<noteq> - 1 then [input_first st] else []) (tmo \<noteq> 0) (it_select it)]
        @ rest"
    using rw_iteration_head [OF assms(1) mx] by blast
  have "ready_to_write (it_select it) fd \<longrightarrow>
          (\<exists>x. Ev_write fd msg x \<in> set rest) \<or> list_ex hard_failure rest
          \<or> (\<exists>n' c. Ev_callback n' c False \<in> set rest)"
  proof
    assume "ready_to_write (it_select it) fd"
    then obtain rr rw where sel: "it_select it = Select_ready rr rw" "fd \<in> set rw"
      by (cases "it_select it") auto
    obtain fr evs1 where reads:
      "read_pipes it (filter (\<lambda>fd. fd \<in> set rr) (read_set_of (map prepare_pipe (pipes st))))
         (map prepare_pipe (pipes st)) (streams st) = (fr, evs1)" by force
    have ws: "filter (\<lambda>fd. fd \<in> set rw) (if input_first st \<noteq> - 1 then [input_first st] else [])
        = [fd]"
      using open_fd assms(2) sel(2) by simp
    then have ne: "filter (\<lambda>fd. fd \<in> set rr) (read_set_of (map prepare_pipe (pipes st))) \<noteq> []
         \<or> filter (\<lambda>fd. fd \<in> set rw) (if input_first st \<noteq> - 1 then [input_first st] else []) \<noteq> []"
      by simp
    note body = rw_iteration_ready [OF assms(1) mx sel(1) ne reads, of child tmo, unfolded ws]
    show "(\<exists>x. Ev_write fd msg x \<in> set rest) \<or> list_ex hard_failure rest
          \<or> (\<exists>n' c. Ev_callback n' c False \<in> set rest)"
    proof (cases fr)
      case (For_done ps' s')
      have "rest = evs1 @ snd (write_input it [fd] (st\<lparr>pipes := ps', streams := s'\<rparr>))"
        using head body For_done by simp
      moreover have "\<exists>x. Ev_write fd msg x
          \<in> set (snd (write_input it [fd] (st\<lparr>pipes := ps', streams := s'\<rparr>)))"
        using write_input_visits [of "st\<lparr>pipes := ps', streams := s'\<rparr>" "[fd]" it] assms(2,3) open_fd
        by simp
      ultimately show ?thesis by auto
    next
      case (For_return s')
      have "rest = evs1" using head body For_return by simp
      then show ?thesis using read_pipes_return [OF reads [unfolded For_return]] by simp
    next
      case (For_throw e)
      have "rest = evs1" using head body For_throw by simp
      then show ?thesis using read_pipes_throw [OF reads [unfolded For_throw]] by simp
    qed
  qed
  moreover have "(if input_first st \<noteq> - 1 then [input_first st] else []) = [fd]"
    using open_fd assms(2) by simp
  ultimately show ?thesis using head by auto
qed

text \<open>After a turn that goes on, with no signal of the timer, the next turn follows.\<close>

lemma rw_from_child_next:
  assumes "rw_iteration child tmo it st = (Step_continue st', evs)" "\<not> it_alarm it"
  shows "\<exists>later. snd (rw_from_child child st tmo (it # it' # its))
                   = evs @ snd (rw_iteration child tmo it' st') @ later"
proof -
  obtain r2 evs2 where two: "rw_iteration child tmo it' st' = (r2, evs2)" by force
  have a: "snd (rw_from_child child st tmo (it # it' # its))
      = evs @ snd (rw_from_child child st' tmo (it' # its))"
    using rw_from_child_Cons [OF assms(1), of "it' # its"] assms(2)
    by (simp add: deliver_def delivered_def del: rw_from_child.simps)
  have "\<exists>later. snd (rw_from_child child st' tmo (it' # its)) = evs2 @ later"
    using rw_from_child_Cons [OF two, of its] by (cases r2) simp_all
  then show ?thesis using a two by auto
qed

lemma interrupted_select_turn:
  assumes "\<not> command_timedout st"
    "max_descriptor (map prepare_pipe (pipes st)) (input_first st) \<noteq> - 1"
    "it_select it = Select_failed EINTR"
  shows "rw_iteration child tmo it st =
      (Step_continue (st\<lparr>pipes := map prepare_pipe (pipes st)\<rparr>),
       [Ev_command_timedout False,
        Ev_select (read_set_of (map prepare_pipe (pipes st)))
          (if input_first st \<noteq> - 1 then [input_first st] else []) (tmo \<noteq> 0)
          (Select_failed EINTR)])"
  using assms by (simp add: rw_iteration_def Let_def)

lemma select_retried:
  assumes "\<not> command_timedout st"
    "max_descriptor (map prepare_pipe (pipes st)) (input_first st) \<noteq> - 1"
    "it_select it = Select_failed EINTR" "\<not> it_alarm it"
  shows "\<exists>rest. snd (rw_from_child child st tmo (it # it' # its))
          = [Ev_command_timedout False,
             Ev_select (read_set_of (map prepare_pipe (pipes st)))
               (if input_first st \<noteq> - 1 then [input_first st] else []) (tmo \<noteq> 0)
               (Select_failed EINTR),
             Ev_command_timedout False,
             Ev_select (read_set_of (map prepare_pipe (pipes st)))
               (if input_first st \<noteq> - 1 then [input_first st] else []) (tmo \<noteq> 0)
               (it_select it')] @ rest"
proof -
  define st1 where "st1 = st\<lparr>pipes := map prepare_pipe (pipes st)\<rparr>"
  note one = interrupted_select_turn [OF assms(1-3), of child tmo, folded st1_def]
  obtain later where tr: "snd (rw_from_child child st tmo (it # it' # its))
      = [Ev_command_timedout False,
         Ev_select (read_set_of (map prepare_pipe (pipes st)))
           (if input_first st \<noteq> - 1 then [input_first st] else []) (tmo \<noteq> 0)
           (Select_failed EINTR)]
        @ snd (rw_iteration child tmo it' st1) @ later"
    using rw_from_child_next [OF one assms(4)] by blast
  have f: "\<not> command_timedout st1" using assms(1) by (simp add: st1_def)
  have m: "max_descriptor (map prepare_pipe (pipes st1)) (input_first st1) \<noteq> - 1"
    using assms(2) by (simp add: st1_def max_descriptor_prepare del: map_map)
  obtain rest where "snd (rw_iteration child tmo it' st1)
      = [Ev_command_timedout False,
         Ev_select (read_set_of (map prepare_pipe (pipes st1)))
           (if input_first st1 \<noteq> - 1 then [input_first st1] else []) (tmo \<noteq> 0)
           (it_select it')] @ rest"
    using rw_iteration_head [OF f m] by blast
  then have "snd (rw_iteration child tmo it' st1)
      = [Ev_command_timedout False,
         Ev_select (read_set_of (map prepare_pipe (pipes st)))
           (if input_first st \<noteq> - 1 then [input_first st] else []) (tmo \<noteq> 0)
           (it_select it')] @ rest"
    by (simp add: st1_def read_set_of_prepare del: map_map)
  with tr show ?thesis by simp
qed

lemma select_not_retried:
  assumes "\<not> command_timedout st"
    "max_descriptor (map prepare_pipe (pipes st)) (input_first st) \<noteq> - 1"
    "it_select it = Select_failed EINTR" "it_alarm it"
  shows "rw_from_child child st tmo (it # it' # its)
      = (Loop_throw (Timeout_exception
                       (''command timed out after '' @ show_nat tmo @ '' seconds.'')
                       (size_t_of_pid child)),
         [Ev_command_timedout False,
          Ev_select (read_set_of (map prepare_pipe (pipes st)))
            (if input_first st \<noteq> - 1 then [input_first st] else []) (tmo \<noteq> 0)
            (Select_failed EINTR),
          Ev_timer_handler, Ev_command_timedout True] @ delivered it')"
proof -
  define st1 where "st1 = st\<lparr>pipes := map prepare_pipe (pipes st)\<rparr>"
  note one = interrupted_select_turn [OF assms(1-3), of child tmo, folded st1_def]
  have two: "rw_iteration child tmo it' (deliver it st1)
      = (Step_throw (Timeout_exception
                       (''command timed out after '' @ show_nat tmo @ '' seconds.'')
                       (size_t_of_pid child)), [Ev_command_timedout True])"
    using assms(4) by (simp add: rw_iteration_def deliver_def timer_handler_def)
  show ?thesis
    using rw_from_child_Cons [OF one, of "it' # its"] rw_from_child_Cons [OF two, of its] assms(4)
    by (simp add: delivered_def del: rw_from_child.simps)
qed

text \<open>
  Claim C9, as the code has it. An interrupted call never makes the loop throw: whenever
  the loop throws an execution exception, some call of the run has failed with an
  \<open>errno\<close> other than \<open>EINTR\<close>. What is issued again is decided by the next turn of the
  loop. After an interrupted \<open>select\<close> in a turn without the timer's signal, the next turn
  issues \<open>select\<close> again with the same sets; when the timer's handler has run in that
  turn, the next turn throws the timeout exception instead. After an interrupted \<open>read\<close>
  or \<open>write\<close> on a valid descriptor, in a turn that lets the loop go on and has no signal
  of the timer, the next turn waits for that descriptor again and, if \<open>select\<close> reports
  it ready, issues the \<open>read\<close>, or the \<open>write\<close> of the same text, again, unless before
  that a call of that turn fails for good or a callback asks to stop.
\<close>

theorem interrupted_calls_are_retried:
  "(\<not> command_timedout st
      \<and> max_descriptor (map prepare_pipe (pipes st)) (input_first st) \<noteq> - 1
      \<and> it_select it = Select_failed EINTR \<and> \<not> it_alarm it
     \<longrightarrow> (\<exists>rest. snd (rw_from_child child st tmo (it # it' # its))
            = [Ev_command_timedout False,
               Ev_select (read_set_of (map prepare_pipe (pipes st)))
                 (if input_first st \<noteq> - 1 then [input_first st] else []) (tmo \<noteq> 0)
                 (Select_failed EINTR),
               Ev_command_timedout False,
               Ev_select (read_set_of (map prepare_pipe (pipes st)))
                 (if input_first st \<noteq> - 1 then [input_first st] else []) (tmo \<noteq> 0)
                 (it_select it')] @ rest))
   \<and> (\<not> command_timedout st
      \<and> max_descriptor (map prepare_pipe (pipes st)) (input_first st) \<noteq> - 1
      \<and> it_select it = Select_failed EINTR \<and> it_alarm it
     \<longrightarrow> rw_from_child child st tmo (it # it' # its)
          = (Loop_throw (Timeout_exception
                           (''command timed out after '' @ show_nat tmo @ '' seconds.'')
                           (size_t_of_pid child)),
             [Ev_command_timedout False,
              Ev_select (read_set_of (map prepare_pipe (pipes st)))
                (if input_first st \<noteq> - 1 then [input_first st] else []) (tmo \<noteq> 0)
                (Select_failed EINTR),
              Ev_timer_handler, Ev_command_timedout True] @ delivered it'))
   \<and> (rw_iteration child tmo it st = (Step_continue st', evs)
      \<and> Ev_read n fd (Read_failed EINTR) \<in> set evs \<and> \<not> it_alarm it \<and> 0 \<le> fd
     \<longrightarrow> (\<exists>rs ws rest later.
            snd (rw_from_child child st tmo (it # it' # its))
              = evs @ [Ev_command_timedout False, Ev_select rs ws (tmo \<noteq> 0) (it_select it')]
                  @ rest @ later
          \<and> snd (rw_iteration child tmo it' st')
              = [Ev_command_timedout False, Ev_select rs ws (tmo \<noteq> 0) (it_select it')] @ rest
          \<and> fd \<in> set rs
          \<and> (ready_to_read (it_select it') fd \<longrightarrow>
               (\<exists>x. Ev_read n fd x \<in> set rest) \<or> list_ex hard_failure rest
               \<or> (\<exists>n' c. Ev_callback n' c False \<in> set rest))))
   \<and> (rw_iteration child tmo it st = (Step_continue st', evs)
      \<and> Ev_write wfd msg (Write_failed EINTR) \<in> set evs \<and> \<not> it_alarm it \<and> 0 \<le> wfd
     \<longrightarrow> (\<exists>rs rest later.
            snd (rw_from_child child st tmo (it # it' # its))
              = evs @ [Ev_command_timedout False, Ev_select rs [wfd] (tmo \<noteq> 0) (it_select it')]
                  @ rest @ later
          \<and> snd (rw_iteration child tmo it' st')
              = [Ev_command_timedout False, Ev_select rs [wfd] (tmo \<noteq> 0) (it_select it')] @ rest
          \<and> (ready_to_write (it_select it') wfd \<longrightarrow>
               (\<exists>x. Ev_write wfd msg x \<in> set rest) \<or> list_ex hard_failure rest
               \<or> (\<exists>n' c. Ev_callback n' c False \<in> set rest))))
   \<and> (\<forall>m. fst (rw_from_child child st tmo its) = Loop_throw (Execution_exception m)
     \<longrightarrow> list_ex hard_failure (snd (rw_from_child child st tmo its)))"
proof (intro conjI impI allI)
  assume a: "\<not> command_timedout st
      \<and> max_descriptor (map prepare_pipe (pipes st)) (input_first st) \<noteq> - 1
      \<and> it_select it = Select_failed EINTR \<and> \<not> it_alarm it"
  then have "\<not> command_timedout st"
    "max_descriptor (map prepare_pipe (pipes st)) (input_first st) \<noteq> - 1"
    "it_select it = Select_failed EINTR" "\<not> it_alarm it" by simp_all
  then show "\<exists>rest. snd (rw_from_child child st tmo (it # it' # its))
            = [Ev_command_timedout False,
               Ev_select (read_set_of (map prepare_pipe (pipes st)))
                 (if input_first st \<noteq> - 1 then [input_first st] else []) (tmo \<noteq> 0)
                 (Select_failed EINTR),
               Ev_command_timedout False,
               Ev_select (read_set_of (map prepare_pipe (pipes st)))
                 (if input_first st \<noteq> - 1 then [input_first st] else []) (tmo \<noteq> 0)
                 (it_select it')] @ rest"
    by (rule select_retried)
next
  assume a: "\<not> command_timedout st
      \<and> max_descriptor (map prepare_pipe (pipes st)) (input_first st) \<noteq> - 1
      \<and> it_select it = Select_failed EINTR \<and> it_alarm it"
  then have "\<not> command_timedout st"
    "max_descriptor (map prepare_pipe (pipes st)) (input_first st) \<noteq> - 1"
    "it_select it = Select_failed EINTR" "it_alarm it" by simp_all
  then show "rw_from_child child st tmo (it # it' # its)
          = (Loop_throw (Timeout_exception
                           (''command timed out after '' @ show_nat tmo @ '' seconds.'')
                           (size_t_of_pid child)),
             [Ev_command_timedout False,
              Ev_select (read_set_of (map prepare_pipe (pipes st)))
                (if input_first st \<noteq> - 1 then [input_first st] else []) (tmo \<noteq> 0)
                (Select_failed EINTR),
              Ev_timer_handler, Ev_command_timedout True] @ delivered it')"
    by (rule select_not_retried)
next
  assume a: "rw_iteration child tmo it st = (Step_continue st', evs)
      \<and> Ev_read n fd (Read_failed EINTR) \<in> set evs \<and> \<not> it_alarm it \<and> 0 \<le> fd"
  then have one: "rw_iteration child tmo it st = (Step_continue st', evs)"
    and ev: "Ev_read n fd (Read_failed EINTR) \<in> set evs"
    and na: "\<not> it_alarm it" and fd: "0 \<le> fd" by simp_all
  from rw_iteration_read_interrupted [OF one ev]
  obtain p where f: "\<not> command_timedout st'"
    and p: "p \<in> set (pipes st')" "name p = n" "descriptor p = fd" by blast
  from next_turn_reads [OF f p(1) p(3) p(2) fd, of child tmo it']
  obtain rs ws rest where two:
    "snd (rw_iteration child tmo it' st')
       = [Ev_command_timedout False, Ev_select rs ws (tmo \<noteq> 0) (it_select it')] @ rest"
    "fd \<in> set rs"
    "ready_to_read (it_select it') fd \<longrightarrow>
       (\<exists>x. Ev_read n fd x \<in> set rest) \<or> list_ex hard_failure rest
       \<or> (\<exists>n' c. Ev_callback n' c False \<in> set rest)" by blast
  from rw_from_child_next [OF one na, of it' its]
  obtain later where "snd (rw_from_child child st tmo (it # it' # its))
      = evs @ snd (rw_iteration child tmo it' st') @ later" by blast
  then have "snd (rw_from_child child st tmo (it # it' # its))
      = evs @ [Ev_command_timedout False, Ev_select rs ws (tmo \<noteq> 0) (it_select it')]
          @ rest @ later"
    unfolding two(1) by simp
  with two show "\<exists>rs ws rest later.
            snd (rw_from_child child st tmo (it # it' # its))
              = evs @ [Ev_command_timedout False, Ev_select rs ws (tmo \<noteq> 0) (it_select it')]
                  @ rest @ later
          \<and> snd (rw_iteration child tmo it' st')
              = [Ev_command_timedout False, Ev_select rs ws (tmo \<noteq> 0) (it_select it')] @ rest
          \<and> fd \<in> set rs
          \<and> (ready_to_read (it_select it') fd \<longrightarrow>
               (\<exists>x. Ev_read n fd x \<in> set rest) \<or> list_ex hard_failure rest
               \<or> (\<exists>n' c. Ev_callback n' c False \<in> set rest))"
    by (intro exI conjI)
next
  assume a: "rw_iteration child tmo it st = (Step_continue st', evs)
      \<and> Ev_write wfd msg (Write_failed EINTR) \<in> set evs \<and> \<not> it_alarm it \<and> 0 \<le> wfd"
  then have one: "rw_iteration child tmo it st = (Step_continue st', evs)"
    and ev: "Ev_write wfd msg (Write_failed EINTR) \<in> set evs"
    and na: "\<not> it_alarm it" and fd: "0 \<le> wfd" by simp_all
  from rw_iteration_write_interrupted [OF one ev]
  have f: "\<not> command_timedout st'" and i: "input_first st' = wfd" "input_second st' = msg"
    by simp_all
  from next_turn_writes [OF f i fd, of child tmo it']
  obtain rs rest where two:
    "snd (rw_iteration child tmo it' st')
       = [Ev_command_timedout False, Ev_select rs [wfd] (tmo \<noteq> 0) (it_select it')] @ rest"
    "ready_to_write (it_select it') wfd \<longrightarrow>
       (\<exists>x. Ev_write wfd msg x \<in> set rest) \<or> list_ex hard_failure rest
       \<or> (\<exists>n' c. Ev_callback n' c False \<in> set rest)" by blast
  from rw_from_child_next [OF one na, of it' its]
  obtain later where "snd (rw_from_child child st tmo (it # it' # its))
      = evs @ snd (rw_iteration child tmo it' st') @ later" by blast
  then have "snd (rw_from_child child st tmo (it # it' # its))
      = evs @ [Ev_command_timedout False, Ev_select rs [wfd] (tmo \<noteq> 0) (it_select it')]
          @ rest @ later"
    unfolding two(1) by simp
  with two show "\<exists>rs rest later.
            snd (rw_from_child child st tmo (it # it' # its))
              = evs @ [Ev_command_timedout False, Ev_select rs [wfd] (tmo \<noteq> 0) (it_select it')]
                  @ rest @ later
          \<and> snd (rw_iteration child tmo it' st')
              = [Ev_command_timedout False, Ev_select rs [wfd] (tmo \<noteq> 0) (it_select it')] @ rest
          \<and> (ready_to_write (it_select it') wfd \<longrightarrow>
               (\<exists>x. Ev_write wfd msg x \<in> set rest) \<or> list_ex hard_failure rest
               \<or> (\<exists>n' c. Ev_callback n' c False \<in> set rest))"
    by (intro exI conjI)
next
  fix m
  assume t: "fst (rw_from_child child st tmo its) = Loop_throw (Execution_exception m)"
  obtain r evs where run: "rw_from_child child st tmo its = (r, evs)" by force
  with t have "rw_from_child child st tmo its = (Loop_throw (Execution_exception m), evs)"
    by simp
  from rw_from_child_throw [OF this] show "list_ex hard_failure (snd (rw_from_child child st tmo its))"
    by (simp add: run)
qed

text \<open>
  Four runs of the loop from the sample state, with a timeout of 5 seconds: a wait
  interrupted by some other signal and issued again; a failed wait, which makes the loop
  throw; a wait interrupted by the timer's signal, after which the loop throws the
  timeout exception; and two turns in which every read and write is interrupted, the
  second of which issues all of them again.
\<close>

theorem interrupted_calls_are_retried_witness:
  "(\<exists>rest. snd (rw_from_child 4242 sample_state 5 [interrupted_turn, closing_turn, failing_turn])
            = [Ev_command_timedout False, Ev_select [5, 7] [4] True (Select_failed EINTR),
               Ev_command_timedout False,
               Ev_select [5, 7] [4] True (Select_ready [5, 7] [])] @ rest)
   \<and> list_ex hard_failure (snd (rw_from_child 4242 sample_state 5 [failing_turn]))
   \<and> rw_from_child 4242 sample_state 5 [expired_turn, busy_turn]
     = (Loop_throw (Timeout_exception
                      (''command timed out after '' @ show_nat 5 @ '' seconds.'') 4242),
        [Ev_command_timedout False, Ev_select [5, 7] [4] True (Select_failed EINTR),
         Ev_timer_handler, Ev_command_timedout True])
   \<and> (\<exists>later. snd (rw_from_child 4242 sample_state 5 [busy_turn, busy_turn])
         = [Ev_command_timedout False, Ev_select [5, 7] [4] True (Select_ready [5, 7] [4]),
            Ev_read ''stdout'' 5 (Read_failed EINTR), Ev_read ''stderr'' 7 (Read_failed EINTR),
            Ev_write 4 ''in'' (Write_failed EINTR),
            Ev_command_timedout False, Ev_select [5, 7] [4] True (Select_ready [5, 7] [4]),
            Ev_read ''stdout'' 5 (Read_failed EINTR), Ev_read ''stderr'' 7 (Read_failed EINTR),
            Ev_write 4 ''in'' (Write_failed EINTR)] @ later)"
proof -
  have a: "\<not> command_timedout sample_state"
    "max_descriptor (map prepare_pipe (pipes sample_state)) (input_first sample_state) \<noteq> - 1"
    "it_select interrupted_turn = Select_failed EINTR" "\<not> it_alarm interrupted_turn"
    "it_select expired_turn = Select_failed EINTR" "it_alarm expired_turn"
    "\<not> it_alarm busy_turn" "it_select busy_turn = Select_ready [5, 7] [4]"
    by (simp_all add: sample_defs loop_defs)
  have names: "read_set_of (map prepare_pipe (pipes sample_state)) = [5, 7]"
    "input_first sample_state = 4" "it_select closing_turn = Select_ready [5, 7] []"
    "delivered busy_turn = []" "size_t_of_pid 4242 = 4242"
    by (simp_all add: sample_defs loop_defs size_t_of_pid_def)
  have failing: "rw_from_child 4242 sample_state 5 [failing_turn]
      = (Loop_throw (Execution_exception ''failed to read child output.''),
         [Ev_command_timedout False, Ev_select [5, 7] [4] True (Select_failed 9)])"
    by (simp add: sample_defs loop_defs EINTR_def)
  have t1: "rw_iteration 4242 5 busy_turn sample_state
      = (Step_continue (sample_state\<lparr>pipes := map prepare_pipe (pipes sample_state)\<rparr>),
         [Ev_command_timedout False, Ev_select [5, 7] [4] True (Select_ready [5, 7] [4]),
          Ev_read ''stdout'' 5 (Read_failed EINTR), Ev_read ''stderr'' 7 (Read_failed EINTR),
          Ev_write 4 ''in'' (Write_failed EINTR)])"
    by (simp add: sample_defs loop_defs)
  have t2: "snd (rw_iteration 4242 5 busy_turn
                   (sample_state\<lparr>pipes := map prepare_pipe (pipes sample_state)\<rparr>))
      = [Ev_command_timedout False, Ev_select [5, 7] [4] True (Select_ready [5, 7] [4]),
         Ev_read ''stdout'' 5 (Read_failed EINTR), Ev_read ''stderr'' 7 (Read_failed EINTR),
         Ev_write 4 ''in'' (Write_failed EINTR)]"
    by (simp add: sample_defs loop_defs)
  have w1: "(\<exists>rest. snd (rw_from_child 4242 sample_state 5
                            [interrupted_turn, closing_turn, failing_turn])
            = [Ev_command_timedout False, Ev_select [5, 7] [4] True (Select_failed EINTR),
               Ev_command_timedout False,
               Ev_select [5, 7] [4] True (Select_ready [5, 7] [])] @ rest)
     \<and> list_ex hard_failure (snd (rw_from_child 4242 sample_state 5 [failing_turn]))"
    using interrupted_calls_are_retried
      [where st = sample_state and it = interrupted_turn and it' = closing_turn
         and its = "[failing_turn]" and child = 4242 and tmo = 5] a
    unfolding names failing by (simp del: rw_from_child.simps)
  have w2: "rw_from_child 4242 sample_state 5 [expired_turn, busy_turn]
     = (Loop_throw (Timeout_exception
                      (''command timed out after '' @ show_nat 5 @ '' seconds.'') 4242),
        [Ev_command_timedout False, Ev_select [5, 7] [4] True (Select_failed EINTR),
         Ev_timer_handler, Ev_command_timedout True])"
    using interrupted_calls_are_retried
      [where st = sample_state and it = expired_turn and it' = busy_turn
         and its = "[]" and child = 4242 and tmo = 5] a
    unfolding names by (simp del: rw_from_child.simps)
  have w3: "\<exists>later. snd (rw_from_child 4242 sample_state 5 [busy_turn, busy_turn])
         = [Ev_command_timedout False, Ev_select [5, 7] [4] True (Select_ready [5, 7] [4]),
            Ev_read ''stdout'' 5 (Read_failed EINTR), Ev_read ''stderr'' 7 (Read_failed EINTR),
            Ev_write 4 ''in'' (Write_failed EINTR),
            Ev_command_timedout False, Ev_select [5, 7] [4] True (Select_ready [5, 7] [4]),
            Ev_read ''stdout'' 5 (Read_failed EINTR), Ev_read ''stderr'' 7 (Read_failed EINTR),
            Ev_write 4 ''in'' (Write_failed EINTR)] @ later"
    using interrupted_calls_are_retried
      [where st = sample_state and it = busy_turn and it' = busy_turn and its = "[]"
         and child = 4242 and tmo = 5 and n = "''stdout''" and fd = 5
         and wfd = 4 and msg = "''in''"
         and st' = "sample_state\<lparr>pipes := map prepare_pipe (pipes sample_state)\<rparr>"
         and evs = "[Ev_command_timedout False,
          Ev_select [5, 7] [4] True (Select_ready [5, 7] [4]),
          Ev_read ''stdout'' 5 (Read_failed EINTR), Ev_read ''stderr'' 7 (Read_failed EINTR),
          Ev_write 4 ''in'' (Write_failed EINTR)]"] t1 a(7,8)
    unfolding t2 by (simp del: rw_from_child.simps)
  from w1 w2 w3 show ?thesis by (simp only: simp_thms)
qed

text \<open>
  Claim C9 as stated fails where the signal that interrupts the wait is the timer's: the
  wait is not issued again, and the call ends with the timeout exception.
\<close>

theorem timer_interrupts_wait_counterexample:
  "rw_from_child 4242 sample_state 5 [expired_turn, closing_turn]
     = (Loop_throw (Timeout_exception
                      (''command timed out after '' @ show_nat 5 @ '' seconds.'') 4242),
        [Ev_command_timedout False, Ev_select [5, 7] [4] True (Select_failed EINTR),
         Ev_timer_handler, Ev_command_timedout True])"
  by (simp add: sample_defs loop_defs size_t_of_pid_def)


subsection \<open>The orchestrator\<close>



lemma reaper_events:
  "snd (reaper w l k child) =
     (if k then [Ev_kill (- child) SIGKILL] else []) @ [Ev_waitpid child (waitpid_r w l)]"
  by (simp add: reaper_def Let_def split: sysres.splits)

lemma setup_timer_events:
  "setup_timer w tmo = (r, evs) \<Longrightarrow> \<forall>ev \<in> set evs. \<not> loop_only ev \<and> \<not> is_reap ev"
  by (auto simp: setup_timer_def split: if_splits sysres.splits)

lemma timer_reset_events: "\<forall>ev \<in> set (timer_reset tmo). \<not> loop_only ev \<and> \<not> is_reap ev"
  by (simp add: timer_reset_def)

lemma open_pipes_events:
  "open_pipes w req = (r, evs) \<Longrightarrow> \<forall>ev \<in> set evs. \<not> loop_only ev \<and> \<not> is_reap ev"
  by (auto simp: open_pipes_def split: if_splits sysres.splits prod.splits)

lemma exec_child_events:
  "exec_child w i out err prog argv envp = (r, evs) \<Longrightarrow>
     \<forall>ev \<in> set evs. \<not> loop_only ev \<and> \<not> is_reap ev"
  by (auto simp: exec_child_def child_failed_def split: sysres.splits)

lemma create_child_events:
  assumes "create_child w i out err prog argv envp = (r, evs)"
  shows "\<forall>ev \<in> set evs. \<not> loop_only ev \<and> \<not> is_reap ev"
proof -
  obtain r1 evs1 where ex: "exec_child w i out err prog argv envp = (r1, evs1)" by force
  note exec_child_events [OF ex]
  then show ?thesis
    using assms ex by (auto simp: create_child_def Let_def split: if_splits option.splits)
qed

lemma create_child_pid:
  "create_child w i out err prog argv envp = (Inr (child, l), evs) \<Longrightarrow> child = vfork_r w"
  by (auto simp: create_child_def Let_def split: if_splits option.splits prod.splits)

lemma start_child_events:
  assumes "start_child w req = (r, evs)"
  shows "\<forall>ev \<in> set evs. \<not> loop_only ev \<and> \<not> is_reap ev"
proof (cases "which w (file_name req) (search_paths w) = []")
  case True
  with assms show ?thesis by (auto simp: start_child_def split: if_splits)
next
  case False
  obtain r1 evs1 where op: "open_pipes w req = (r1, evs1)" by force
  note e1 = open_pipes_events [OF op]
  show ?thesis
  proof (cases r1)
    case (Inl e)
    with assms False op have "evs = evs1" by (simp add: start_child_def)
    with e1 show ?thesis by simp
  next
    case (Inr d)
    obtain r2 evs2 where cc: "create_child w (stdin_read d) (stdout_write d) (child_stderr d)
        (c_str (which w (file_name req) (search_paths w)))
        (to_exec_arg (arguments req) (Some (file_name req)))
        (to_exec_arg (Some (create_environment (environment req)
                              (merge_environment \<in> options req) (environ w))) None)
        = (r2, evs2)" by force
    note e2 = create_child_events [OF cc]
    have "evs = evs1 @ evs2"
      using assms False op Inr cc by (cases r2) (auto simp: start_child_def Let_def)
    with e1 e2 show ?thesis by (simp add: ball_Un)
  qed
qed

lemma start_child_pid:
  assumes "start_child w req = (Inr (d, child, l), evs)"
  shows "child = vfork_r w"
proof -
  have nf: "which w (file_name req) (search_paths w) \<noteq> []"
    using assms by (auto simp: start_child_def split: if_splits)
  obtain r1 evs1 where op: "open_pipes w req = (r1, evs1)" by force
  show ?thesis
  proof (cases r1)
    case (Inl e)
    with assms nf op show ?thesis by (simp add: start_child_def)
  next
    case (Inr d')
    obtain r2 evs2 where cc: "create_child w (stdin_read d') (stdout_write d') (child_stderr d')
        (c_str (which w (file_name req) (search_paths w)))
        (to_exec_arg (arguments req) (Some (file_name req)))
        (to_exec_arg (Some (create_environment (environment req)
                              (merge_environment \<in> options req) (environ w))) None)
        = (r2, evs2)" by force
    have "r2 = Inr (child, l)"
      using assms nf op Inr cc by (cases r2) (auto simp: start_child_def Let_def)
    with cc create_child_pid show ?thesis by blast
  qed
qed

lemma supervise_timer_failed:
  "setup_timer w (timeout req) = (Inl e, tevs) \<Longrightarrow>
     supervise w sp req d child l
       = (Some (Inl e), tevs @ [Ev_kill (- child) SIGKILL, Ev_waitpid child (waitpid_r w l)])"
  using reaper_events [of w l True child]
  by (simp add: supervise_def split_beta)

lemma supervise_pending:
  "setup_timer w (timeout req) = (Inr u, tevs) \<Longrightarrow>
     read_streams w sp req d child = (Loop_pending, levs) \<Longrightarrow>
     supervise w sp req d child l = (None, tevs @ levs)"
  by (simp add: supervise_def)

lemma supervise_thrown:
  "setup_timer w (timeout req) = (Inr u, tevs) \<Longrightarrow>
     read_streams w sp req d child = (Loop_throw e, levs) \<Longrightarrow>
     supervise w sp req d child l
       = (Some (Inl e),
          tevs @ levs @ timer_reset (timeout req)
            @ [Ev_kill (- child) SIGKILL, Ev_waitpid child (waitpid_r w l)])"
  using reaper_events [of w l True child]
  by (simp add: supervise_def split_beta)

lemma supervise_returned:
  "setup_timer w (timeout req) = (Inr u, tevs) \<Longrightarrow>
     read_streams w sp req d child = (Loop_return s, levs) \<Longrightarrow>
     supervise w sp req d child l
       = (Some (conclude req (fst (reaper w l False child))
                  (fst (sp_captured sp s)) (snd (sp_captured sp s))),
          tevs @ levs @ [Ev_waitpid child (waitpid_r w l)] @ timer_reset (timeout req))"
  using reaper_events [of w l False child]
  by (simp add: supervise_def split_beta)

lemma execute_ended:
  "start_child w req = (Inl outcome, evs0) \<Longrightarrow> execute w sp req = (Some outcome, evs0)"
  by (simp add: execute_def)

lemma execute_started:
  "start_child w req = (Inr (d, child, l), evs0) \<Longrightarrow>
     execute w sp req
       = (fst (supervise w sp req d child l), evs0 @ snd (supervise w sp req d child l))"
  by (simp add: execute_def split_beta)


lemma WIFEXITED_W_EXITCODE: "WIFEXITED (W_EXITCODE code)"
proof -
  have m: "(0x7f :: 32 word) = mask 7" "(0xff :: 32 word) = mask 8"
    by (simp_all add: mask_eq_exp_minus_1)
  show ?thesis
    unfolding WIFEXITED_def WTERMSIG_def W_EXITCODE_def m
    by (rule bit_word_eqI) (auto simp: bit_simps)
qed

lemma WEXITSTATUS_W_EXITCODE: "WEXITSTATUS (W_EXITCODE code) = word_of_int code AND 0xff"
proof -
  have m: "(0xff :: 32 word) = mask 8" "(0xff00 :: 32 word) = push_bit 8 (mask 8)"
    by (simp_all add: mask_eq_exp_minus_1)
  show ?thesis
    unfolding WEXITSTATUS_def W_EXITCODE_def m
    by (rule bit_word_eqI) (auto simp: bit_simps)
qed

lemma static_cast_char_zero [simp]: "static_cast_char b 0 = 0"
  by (simp add: static_cast_char_def)

lemma static_cast_char_zero_iff:
  assumes "uint x < 256"
  shows "static_cast_char b x = 0 \<longleftrightarrow> x = 0"
proof
  assume "static_cast_char b x = 0"
  then have "uint x mod 256 = 0" using static_cast_char_mod [of b x] by simp
  then have "uint x = 0" using assms by simp
  then show "x = 0" by (simp add: uint_0_iff)
qed simp

lemma reaper_exited:
  assumes "waitpid_r w l = Ok raw" "WIFEXITED raw"
  shows "fst (reaper w l k child)
      = \<lparr>r_success = (static_cast_char (char_is_signed w) (WEXITSTATUS raw) = 0),
         r_signaled = False,
         r_status = static_cast_char (char_is_signed w) (WEXITSTATUS raw)\<rparr>"
  using assms by (simp add: reaper_def Let_def)

lemma conclude_exited:
  "conclude req \<lparr>r_success = (c = 0), r_signaled = False, r_status = c\<rparr> out err
     = (if c \<noteq> 0 \<and> throw_on_nonzero_exit \<in> options req
        then Inl (Child_exit_exception
                    (''child process returned non-zero exit status ('' @ show_int c @ '').'')
                    c out err)
        else Inr \<lparr>success = (c = 0), output_text = out, error_text = err, exit_code = c\<rparr>)"
  by (simp add: conclude_def)

lemma execute_returned:
  assumes "start_child w req = (Inr (d, child, l), evs0)"
    and "setup_timer w (timeout req) = (Inr u, tevs)"
    and "read_streams w sp req d child = (Loop_return s, levs)"
  shows "execute w sp req
      = (Some (conclude req (fst (reaper w l False child))
                 (fst (sp_captured sp s)) (snd (sp_captured sp s))),
         evs0 @ tevs @ levs @ [Ev_waitpid child (waitpid_r w l)] @ timer_reset (timeout req))"
  by (simp add: execute_started [OF assms(1)] supervise_returned [OF assms(2,3)])

lemma execute_thrown:
  assumes "start_child w req = (Inr (d, child, l), evs0)"
    and "setup_timer w (timeout req) = (Inr u, tevs)"
    and "read_streams w sp req d child = (Loop_throw e, levs)"
  shows "execute w sp req
      = (Some (Inl e),
         evs0 @ tevs @ levs @ timer_reset (timeout req)
           @ [Ev_kill (- child) SIGKILL, Ev_waitpid child (waitpid_r w l)])"
  by (simp add: execute_started [OF assms(1)] supervise_thrown [OF assms(2,3)])

lemma start_child_launch:
  assumes "start_child w req = (Inr (d, child, l), evs0)"
    and "setpgid_r w = Ok ()" "dup2_stdin_r w = Ok ()" "dup2_stdout_r w = Ok ()"
    and "dup2_stderr_r w = Ok ()" and "execve_r w = Some e"
  shows "l = Child_exited (if e = 0 then EXIT_FAILURE else e)
       \<and> Ev_exit (if e = 0 then EXIT_FAILURE else e) \<in> set evs0"
proof -
  have nf: "which w (file_name req) (search_paths w) \<noteq> []"
    using assms(1) by (auto simp: start_child_def split: if_splits)
  obtain r1 evs1 where op: "open_pipes w req = (r1, evs1)" by force
  show ?thesis
  proof (cases r1)
    case (Inl x)
    with assms(1) nf op show ?thesis by (simp add: start_child_def)
  next
    case (Inr d')
    obtain r2 evs2 where cc: "create_child w (stdin_read d') (stdout_write d') (child_stderr d')
        (c_str (which w (file_name req) (search_paths w)))
        (to_exec_arg (arguments req) (Some (file_name req)))
        (to_exec_arg (Some (create_environment (environment req)
                              (merge_environment \<in> options req) (environ w))) None)
        = (r2, evs2)" by force
    have eq: "r2 = Inr (child, l)" "evs0 = evs1 @ evs2"
      using assms(1) nf op Inr cc by (cases r2; auto simp: start_child_def Let_def)+
    have "l = Child_exited (if e = 0 then EXIT_FAILURE else e)
        \<and> Ev_exit (if e = 0 then EXIT_FAILURE else e) \<in> set evs2"
      using cc [unfolded eq(1)] assms(2-6)
      by (auto simp: create_child_def exec_child_def Let_def split: if_splits)
    then show ?thesis using eq(2) by simp
  qed
qed

text \<open>The five ways a call can go.\<close>

lemma execute_cases:
  obtains
    (ended) outcome evs0 where
      "execute w sp req = (Some outcome, evs0)"
      "\<forall>ev \<in> set evs0. \<not> loop_only ev \<and> \<not> is_reap ev"
  | (timer_failed) l e pre where
      "execute w sp req
         = (Some (Inl e), pre @ [Ev_kill (- vfork_r w) SIGKILL,
                                 Ev_waitpid (vfork_r w) (waitpid_r w l)])"
      "\<forall>ev \<in> set pre. \<not> loop_only ev \<and> \<not> is_reap ev"
  | (pending) d pre levs where
      "read_streams w sp req d (vfork_r w) = (Loop_pending, levs)"
      "execute w sp req = (None, pre @ levs)"
      "\<forall>ev \<in> set pre. \<not> loop_only ev \<and> \<not> is_reap ev"
  | (thrown) d l pre e levs where
      "read_streams w sp req d (vfork_r w) = (Loop_throw e, levs)"
      "execute w sp req
         = (Some (Inl e),
            pre @ levs @ timer_reset (timeout req)
              @ [Ev_kill (- vfork_r w) SIGKILL, Ev_waitpid (vfork_r w) (waitpid_r w l)])"
      "\<forall>ev \<in> set pre. \<not> loop_only ev \<and> \<not> is_reap ev"
  | (returned) d l pre s levs where
      "read_streams w sp req d (vfork_r w) = (Loop_return s, levs)"
      "execute w sp req
         = (Some (conclude req (fst (reaper w l False (vfork_r w)))
                    (fst (sp_captured sp s)) (snd (sp_captured sp s))),
            pre @ levs @ [Ev_waitpid (vfork_r w) (waitpid_r w l)] @ timer_reset (timeout req))"
      "\<forall>ev \<in> set pre. \<not> loop_only ev \<and> \<not> is_reap ev"
proof -
  obtain r0 evs0 where st: "start_child w req = (r0, evs0)" by force
  note e0 = start_child_events [OF st]
  show ?thesis
  proof (cases r0)
    case (Inl outcome)
    then show ?thesis using ended execute_ended [OF st [unfolded Inl]] e0 by blast
  next
    case (Inr x)
    obtain d child l where x: "x = (d, child, l)" by (cases x) auto
    note st' = st [unfolded Inr x]
    have child: "child = vfork_r w" using start_child_pid [OF st'] .
    note st'' = st' [unfolded child]
    obtain rt tevs where tm: "setup_timer w (timeout req) = (rt, tevs)" by force
    note et = setup_timer_events [OF tm]
    have pre: "\<forall>ev \<in> set (evs0 @ tevs). \<not> loop_only ev \<and> \<not> is_reap ev"
      using e0 et by (simp add: ball_Un)
    show ?thesis
    proof (cases rt)
      case (Inl e)
      have "execute w sp req
         = (Some (Inl e), (evs0 @ tevs) @ [Ev_kill (- vfork_r w) SIGKILL,
                                 Ev_waitpid (vfork_r w) (waitpid_r w l)])"
        by (simp add: execute_started [OF st''] supervise_timer_failed [OF tm [unfolded Inl]])
      then show ?thesis using timer_failed pre by blast
    next
      case (Inr u)
      note tm' = tm [unfolded Inr]
      obtain rl levs where rs: "read_streams w sp req d (vfork_r w) = (rl, levs)" by force
      show ?thesis
      proof (cases rl)
        case (Loop_return s)
        have "execute w sp req
         = (Some (conclude req (fst (reaper w l False (vfork_r w)))
                    (fst (sp_captured sp s)) (snd (sp_captured sp s))),
            (evs0 @ tevs) @ levs @ [Ev_waitpid (vfork_r w) (waitpid_r w l)]
              @ timer_reset (timeout req))"
          by (simp add: execute_returned [OF st'' tm' rs [unfolded Loop_return]])
        then show ?thesis using returned [OF rs [unfolded Loop_return]] pre by blast
      next
        case (Loop_throw e)
        have "execute w sp req
         = (Some (Inl e),
            (evs0 @ tevs) @ levs @ timer_reset (timeout req)
              @ [Ev_kill (- vfork_r w) SIGKILL, Ev_waitpid (vfork_r w) (waitpid_r w l)])"
          by (simp add: execute_thrown [OF st'' tm' rs [unfolded Loop_throw]])
        then show ?thesis using thrown [OF rs [unfolded Loop_throw]] pre by blast
      next
        case Loop_pending
        have "execute w sp req = (None, (evs0 @ tevs) @ levs)"
          by (simp add: execute_started [OF st''] supervise_pending [OF tm' rs [unfolded Loop_pending]])
        then show ?thesis using pending [OF rs [unfolded Loop_pending]] pre by blast
      qed
    qed
  qed
qed







subsection \<open>Timeout\<close>

lemma tested_after_handler_append:
  "Ev_timer_handler \<notin> set xs \<Longrightarrow> tested_after_handler (xs @ ys) = tested_after_handler ys"
  by (induction xs rule: tested_after_handler.induct) simp_all

lemma is_flag_test_loop_only: "is_flag_test ev \<Longrightarrow> loop_only ev"
  by (cases ev) simp_all

lemma no_flag_test: "\<forall>ev \<in> set ys. \<not> loop_only ev \<Longrightarrow> \<not> list_ex is_flag_test ys"
  using is_flag_test_loop_only by (auto simp: list_ex_iff)

lemma no_handler: "\<forall>ev \<in> set ys. \<not> loop_only ev \<Longrightarrow> Ev_timer_handler \<notin> set ys"
  by auto

lemma tested_after_handler_plain:
  assumes "\<forall>ev \<in> set ys. \<not> loop_only ev"
  shows "tested_after_handler (xs @ ys) = tested_after_handler xs"
proof (induction xs rule: tested_after_handler.induct)
  case 1
  show ?case using tested_after_handler_append [OF no_handler [OF assms], of "[]"] by simp
next
  case (2 evs)
  show ?case using no_flag_test [OF assms] by simp
qed simp_all

lemma tested_after_handler_frame:
  assumes "\<forall>ev \<in> set pre. \<not> loop_only ev \<and> \<not> is_reap ev" "\<forall>ev \<in> set post. \<not> loop_only ev"
  shows "tested_after_handler (pre @ levs @ post) = tested_after_handler levs"
proof -
  have "Ev_timer_handler \<notin> set pre" using assms(1) by auto
  then show ?thesis
    using tested_after_handler_append [of pre "levs @ post"]
      tested_after_handler_plain [OF assms(2), of levs] by simp
qed

text \<open>Once the flag is set, the next turn leaves the loop by the timeout exception.\<close>

lemma flag_set_throws:
  assumes "command_timedout st" "rw_from_child child st tmo its = (r, evs)" "evs \<noteq> []"
  shows "r = Loop_throw (Timeout_exception
                           (''command timed out after '' @ show_nat tmo @ '' seconds.'')
                           (size_t_of_pid child))"
proof (cases its)
  case Nil
  with assms show ?thesis by simp
next
  case (Cons it its')
  have "rw_iteration child tmo it st
      = (Step_throw (Timeout_exception
                       (''command timed out after '' @ show_nat tmo @ '' seconds.'')
                       (size_t_of_pid child)), [Ev_command_timedout True])"
    using assms(1) by (simp add: rw_iteration_def)
  from rw_from_child_Cons [OF this, of its'] assms(2) Cons show ?thesis by simp
qed

lemma rw_from_child_tested:
  "rw_from_child child st tmo its = (r, evs) \<Longrightarrow> tested_after_handler evs \<Longrightarrow>
     r = Loop_throw (Timeout_exception
                       (''command timed out after '' @ show_nat tmo @ '' seconds.'')
                       (size_t_of_pid child))"
proof (induction its arbitrary: st r evs)
  case Nil
  then show ?case by simp
next
  case (Cons it its)
  obtain r1 evs1 where one: "rw_iteration child tmo it st = (r1, evs1)" by force
  have nh: "Ev_timer_handler \<notin> set evs1" using rw_iteration_events [OF one] by blast
  show ?case
  proof (cases r1)
    case (Step_continue st')
    obtain r2 evs2 where rest: "rw_from_child child (deliver it st') tmo its = (r2, evs2)" by force
    have eq: "evs = evs1 @ delivered it @ evs2" "r = r2"
      using Cons.prems(1) rw_from_child_Cons [OF one, of its] Step_continue rest by simp_all
    have t: "tested_after_handler (delivered it @ evs2)"
      using Cons.prems(2) eq(1) tested_after_handler_append [OF nh] by simp
    show ?thesis
    proof (cases "it_alarm it")
      case True
      then have "list_ex is_flag_test evs2" using t by (simp add: delivered_def)
      then have "evs2 \<noteq> []" by auto
      moreover have "command_timedout (deliver it st')"
        using True by (simp add: deliver_def timer_handler_def)
      ultimately show ?thesis using flag_set_throws [OF _ rest] eq(2) by simp
    next
      case False
      then have "tested_after_handler evs2" using t by (simp add: delivered_def)
      then show ?thesis using Cons.IH [OF rest] eq(2) by simp
    qed
  next
    case (Step_return s)
    then have "evs = evs1 @ delivered it"
      using Cons.prems(1) rw_from_child_Cons [OF one, of its] by simp
    then have "tested_after_handler (delivered it)"
      using Cons.prems(2) tested_after_handler_append [OF nh] by simp
    then show ?thesis by simp
  next
    case (Step_throw e)
    then have "evs = evs1 @ delivered it"
      using Cons.prems(1) rw_from_child_Cons [OF one, of its] by simp
    then have "tested_after_handler (delivered it)"
      using Cons.prems(2) tested_after_handler_append [OF nh] by simp
    then show ?thesis by simp
  qed
qed

text \<open>
  Claim C6, as the code has it. The expiry of the timer reaches the loop as a run of
  \<open>timer_handler\<close>, which sets the flag \<open>command_timedout\<close>; the loop tests the flag at
  the head of every turn and nowhere else. Whenever the flag is tested after the handler
  has run, \<open>execute\<close> throws the timeout exception, with the configured number of seconds
  in its message and the child's identifier (the value \<open>vfork\<close> returned, unchanged by
  the cast to \<open>size_t\<close>); it returns no result then.
\<close>

theorem timeout_raised_at_next_test:
  assumes "tested_after_handler (snd (execute w sp req))"
  shows "fst (execute w sp req)
      = Some (Inl (Timeout_exception
                     (''command timed out after '' @ show_nat (timeout req) @ '' seconds.'')
                     (size_t_of_pid (vfork_r w))))
    \<and> (0 \<le> vfork_r w \<and> vfork_r w < 2 ^ 64 \<longrightarrow> int (size_t_of_pid (vfork_r w)) = vfork_r w)"
proof
  show "fst (execute w sp req)
      = Some (Inl (Timeout_exception
                     (''command timed out after '' @ show_nat (timeout req) @ '' seconds.'')
                     (size_t_of_pid (vfork_r w))))"
  proof (cases rule: execute_cases [of w sp req])
    case (ended outcome evs0)
    have "\<not> tested_after_handler evs0"
      using tested_after_handler_frame [OF ended(2), of "[]" "[]"] by simp
    then show ?thesis using assms ended(1) by simp
  next
    case (timer_failed l e pre)
    have "\<not> tested_after_handler (pre @ [] @ [Ev_kill (- vfork_r w) SIGKILL,
                                             Ev_waitpid (vfork_r w) (waitpid_r w l)])"
      using tested_after_handler_frame [OF timer_failed(2), of _ "[]"] by simp
    then show ?thesis using assms timer_failed(1) by simp
  next
    case (pending d pre levs)
    have "tested_after_handler levs"
      using assms pending(2) tested_after_handler_frame [OF pending(3), of "[]" levs] by simp
    then show ?thesis
      using rw_from_child_tested [OF pending(1) [unfolded read_streams_def]] by simp
  next
    case (thrown d l pre e levs)
    have "\<forall>ev \<in> set (timer_reset (timeout req)
              @ [Ev_kill (- vfork_r w) SIGKILL, Ev_waitpid (vfork_r w) (waitpid_r w l)]).
            \<not> loop_only ev"
      using timer_reset_events [of "timeout req"] by simp
    from tested_after_handler_frame [OF thrown(3) this, of levs]
    have "tested_after_handler levs" using assms thrown(2) by simp
    then show ?thesis
      using rw_from_child_tested [OF thrown(1) [unfolded read_streams_def]] thrown(2) by simp
  next
    case (returned d l pre s levs)
    have "\<forall>ev \<in> set ([Ev_waitpid (vfork_r w) (waitpid_r w l)] @ timer_reset (timeout req)).
            \<not> loop_only ev"
      using timer_reset_events [of "timeout req"] by simp
    from tested_after_handler_frame [OF returned(3) this, of levs]
    have "tested_after_handler levs" using assms returned(2) by simp
    then show ?thesis
      using rw_from_child_tested [OF returned(1) [unfolded read_streams_def]] by simp
  qed
  show "0 \<le> vfork_r w \<and> vfork_r w < 2 ^ 64 \<longrightarrow> int (size_t_of_pid (vfork_r w)) = vfork_r w"
    by (simp add: size_t_of_pid_def)
qed

subsection \<open>Killing the process group\<close>


subsection \<open>Exit status\<close>

text \<open>
  Claim C4, as the code has it. When the loop returns and \<open>waitpid\<close> reports a normal exit
  with code \<open>WEXITSTATUS raw\<close>, the status \<open>c\<close> is that code cast to \<open>char\<close>: the code
  itself, unless \<open>char\<close> is signed and the code is 128 or more, where it is the code
  minus 256. \<open>success\<close> holds exactly when the code is 0. If \<open>c\<close> is not 0 and
  \<open>throw_on_nonzero_exit\<close> is set, \<open>execute\<close> throws the child exit exception with \<open>c\<close> and
  the captured output and error; otherwise it returns the result with status \<open>c\<close>.
\<close>

theorem normal_exit_status:
  assumes "start_child w req = (Inr (d, child, l), evs0)"
      and "setup_timer w (timeout req) = (Inr (), tevs)"
      and "read_streams w sp req d child = (Loop_return s, levs)"
      and "waitpid_r w l = Ok raw" and "WIFEXITED raw"
  shows "let c = static_cast_char (char_is_signed w) (WEXITSTATUS raw);
             out = fst (sp_captured sp s); err = snd (sp_captured sp s)
         in fst (execute w sp req)
              = Some (if c \<noteq> 0 \<and> throw_on_nonzero_exit \<in> options req
                      then Inl (Child_exit_exception
                                  (''child process returned non-zero exit status (''
                                     @ show_int c @ '').'') c out err)
                      else Inr \<lparr>success = (c = 0), output_text = out, error_text = err,
                                exit_code = c\<rparr>)
            \<and> (c = 0 \<longleftrightarrow> WEXITSTATUS raw = 0)
            \<and> (char_is_signed w \<and> 128 \<le> uint (WEXITSTATUS raw)
                 \<longrightarrow> c = uint (WEXITSTATUS raw) - 256)
            \<and> (\<not> (char_is_signed w \<and> 128 \<le> uint (WEXITSTATUS raw))
                 \<longrightarrow> c = uint (WEXITSTATUS raw))"
proof -
  define c where "c = static_cast_char (char_is_signed w) (WEXITSTATUS raw)"
  have b: "uint (WEXITSTATUS raw) < 256" by (rule WEXITSTATUS_bound)
  have "fst (execute w sp req)
      = Some (conclude req \<lparr>r_success = (c = 0), r_signaled = False, r_status = c\<rparr>
                (fst (sp_captured sp s)) (snd (sp_captured sp s)))"
    using execute_returned [OF assms(1-3)] reaper_exited [OF assms(4,5), of False child]
    by (simp add: c_def)
  then have 1: "fst (execute w sp req)
      = Some (if c \<noteq> 0 \<and> throw_on_nonzero_exit \<in> options req
              then Inl (Child_exit_exception
                          (''child process returned non-zero exit status ('' @ show_int c @ '').'')
                          c (fst (sp_captured sp s)) (snd (sp_captured sp s)))
              else Inr \<lparr>success = (c = 0), output_text = fst (sp_captured sp s),
                        error_text = snd (sp_captured sp s), exit_code = c\<rparr>)"
    by (simp only: conclude_exited)
  have 2: "c = 0 \<longleftrightarrow> WEXITSTATUS raw = 0"
    unfolding c_def by (rule static_cast_char_zero_iff [OF b])
  have 3: "char_is_signed w \<and> 128 \<le> uint (WEXITSTATUS raw) \<longrightarrow> c = uint (WEXITSTATUS raw) - 256"
    unfolding c_def using static_cast_char_signed_high [OF _ b] by simp
  have 4: "\<not> (char_is_signed w \<and> 128 \<le> uint (WEXITSTATUS raw)) \<longrightarrow> c = uint (WEXITSTATUS raw)"
  proof (cases "char_is_signed w")
    case True
    then show ?thesis unfolding c_def using static_cast_char_small [of "WEXITSTATUS raw" True] by auto
  next
    case False
    then show ?thesis unfolding c_def using static_cast_char_unsigned [OF b] by simp
  qed
  show ?thesis unfolding Let_def c_def [symmetric] using 1 2 3 4 by blast
qed

subsection \<open>Launch failure\<close>

text \<open>
  Claim C2, as the code has it. When the child exists but \<open>execve\<close> fails with \<open>errno\<close>
  \<open>e\<close>, the child branch leaves through \<open>_exit\<close> with \<open>e\<close> (\<open>EXIT_FAILURE\<close> if \<open>e\<close> is 0),
  and the parent has no other notice of the failure: once the loop has returned and the
  status is collected, the call ends like any normal exit of the child, with the low
  eight bits of that code cast to \<open>char\<close> as status, in a result or in the child exit
  exception according to \<open>throw_on_nonzero_exit\<close>.
\<close>

theorem launch_failure_is_an_exit_status:
  assumes "start_child w req = (Inr (d, child, l), evs0)"
      and "setpgid_r w = Ok ()" and "dup2_stdin_r w = Ok ()" and "dup2_stdout_r w = Ok ()"
      and "dup2_stderr_r w = Ok ()" and "execve_r w = Some e"
      and "setup_timer w (timeout req) = (Inr (), tevs)"
      and "read_streams w sp req d child = (Loop_return s, levs)"
      and "waitpid_errno w = None"
  shows "let code = (if e = 0 then EXIT_FAILURE else e);
             c = static_cast_char (char_is_signed w) (word_of_int code AND 0xff);
             out = fst (sp_captured sp s); err = snd (sp_captured sp s)
         in l = Child_exited code \<and> Ev_exit code \<in> set evs0
            \<and> fst (execute w sp req)
              = Some (if c \<noteq> 0 \<and> throw_on_nonzero_exit \<in> options req
                      then Inl (Child_exit_exception
                                  (''child process returned non-zero exit status (''
                                     @ show_int c @ '').'') c out err)
                      else Inr \<lparr>success = (c = 0), output_text = out, error_text = err,
                                exit_code = c\<rparr>)"
proof -
  define code where "code = (if e = 0 then EXIT_FAILURE else e)"
  define c where "c = static_cast_char (char_is_signed w) (word_of_int code AND 0xff)"
  have l: "l = Child_exited code" "Ev_exit code \<in> set evs0"
    using start_child_launch [OF assms(1-6)] by (simp_all add: code_def)
  have wp: "waitpid_r w l = Ok (W_EXITCODE code)"
    using assms(9) l(1) by (simp add: waitpid_r_def)
  have "fst (execute w sp req)
      = Some (conclude req \<lparr>r_success = (c = 0), r_signaled = False, r_status = c\<rparr>
                (fst (sp_captured sp s)) (snd (sp_captured sp s)))"
    using execute_returned [OF assms(1,7,8)]
      reaper_exited [OF wp WIFEXITED_W_EXITCODE, of False child]
    by (simp add: c_def WEXITSTATUS_W_EXITCODE)
  then have "fst (execute w sp req)
      = Some (if c \<noteq> 0 \<and> throw_on_nonzero_exit \<in> options req
              then Inl (Child_exit_exception
                          (''child process returned non-zero exit status ('' @ show_int c @ '').'')
                          c (fst (sp_captured sp s)) (snd (sp_captured sp s)))
              else Inr \<lparr>success = (c = 0), output_text = fst (sp_captured sp s),
                        error_text = snd (sp_captured sp s), exit_code = c\<rparr>)"
    by (simp only: conclude_exited)
  then show ?thesis unfolding Let_def code_def [symmetric] c_def [symmetric] using l by blast
qed

subsection \<open>The sample runs, evaluated\<close>

lemmas variant_defs = expired_world_def late_world_def timed_request_def loud_world_def
  unlaunched_world_def sample_prefix_def

lemmas start_defs = start_child_def which_def is_executable_def is_group_member_def
  get_groups_def S_IXUSR_def S_IXGRP_def S_IXOTH_def open_pipes_def create_child_def
  exec_child_def to_exec_arg_def c_str_def create_environment_def starts_with_def
  count_key_def get_max_descriptor_limit_def STDIN_FILENO_def STDOUT_FILENO_def
  STDERR_FILENO_def EXIT_FAILURE_def

lemmas reap_defs = reaper_def waitpid_r_def WIFEXITED_def WIFSIGNALED_def WTERMSIG_def
  WEXITSTATUS_def W_EXITCODE_def static_cast_char_def conclude_def SIGKILL_def timer_reset_def

lemma start_sample:
  "start_child sample_world sample_request
     = (Inr (sample_descriptors, 4242, Image_replaced), sample_prefix None)"
  by (simp add: sample_defs variant_defs start_defs)

lemma start_timed:
  "start_child expired_world timed_request
     = (Inr (sample_descriptors, 4242, Image_replaced), sample_prefix None)"
  by (simp add: sample_defs variant_defs start_defs)

lemma start_late:
  "start_child late_world timed_request
     = (Inr (sample_descriptors, 4242, Image_replaced), sample_prefix None)"
  by (simp add: sample_defs variant_defs start_defs)

lemma start_loud:
  "start_child loud_world sample_request
     = (Inr (sample_descriptors, 4242, Image_replaced), sample_prefix None)"
  by (simp add: sample_defs variant_defs start_defs)

lemma start_unlaunched:
  "start_child unlaunched_world sample_request
     = (Inr (sample_descriptors, 4242, Child_exited 2), sample_prefix (Some 2) @ [Ev_exit 2])"
  by (simp add: sample_defs variant_defs start_defs)

lemma timer_sample:
  "setup_timer sample_world (timeout sample_request) = (Inr (), [])"
  "setup_timer loud_world (timeout sample_request) = (Inr (), [])"
  "setup_timer unlaunched_world (timeout sample_request) = (Inr (), [])"
  "setup_timer expired_world (timeout timed_request)
     = (Inr (), [Ev_sigaction (Ok ()), Ev_setitimer 5 (Ok ())])"
  "setup_timer late_world (timeout timed_request)
     = (Inr (), [Ev_sigaction (Ok ()), Ev_setitimer 5 (Ok ())])"
  by (simp_all add: sample_defs variant_defs setup_timer_def)

lemma loop_sample:
  "read_streams sample_world sample_processor sample_request sample_descriptors 4242
     = (Loop_return (''hello'', []),
        sample_loop_events True @
        [Ev_command_timedout False, Ev_select [5, 7] [] False (Select_ready [5, 7] []),
         Ev_read ''stdout'' 5 (Read_data []), Ev_read ''stderr'' 7 (Read_data []),
         Ev_command_timedout False])"
  by (simp add: sample_defs variant_defs loop_defs sample_loop_events_def)

lemma loop_loud:
  "read_streams loud_world sample_processor sample_request sample_descriptors 4242
     = (Loop_return (''hello'', []),
        sample_loop_events True @
        [Ev_command_timedout False, Ev_select [5, 7] [] False (Select_ready [5, 7] []),
         Ev_read ''stdout'' 5 (Read_data []), Ev_read ''stderr'' 7 (Read_data []),
         Ev_command_timedout False])"
  by (simp add: sample_defs variant_defs loop_defs sample_loop_events_def)


lemma loop_expired:
  "read_streams expired_world sample_processor timed_request sample_descriptors 4242
     = (Loop_throw (Timeout_exception
                      (''command timed out after '' @ show_nat 5 @ '' seconds.'') 4242),
        [Ev_command_timedout False, Ev_select [5, 7] [] True (Select_failed EINTR),
         Ev_timer_handler, Ev_command_timedout True])"
  by (simp add: sample_defs variant_defs loop_defs size_t_of_pid_def)

lemma loop_late:
  "read_streams late_world stopping_processor timed_request sample_descriptors 4242
     = (Loop_return (''hello'', []),
        [Ev_command_timedout False, Ev_select [5, 7] [] True (Select_ready [5] []),
         Ev_read ''stdout'' 5 (Read_data ''hello''), Ev_callback ''stdout'' ''hello'' False,
         Ev_timer_handler])"
  by (simp add: sample_defs variant_defs loop_defs)

lemma loop_unlaunched:
  "read_streams unlaunched_world sample_processor sample_request sample_descriptors 4242
     = (Loop_return ([], []),
        [Ev_command_timedout False, Ev_select [5, 7] [] False (Select_ready [5, 7] []),
         Ev_read ''stdout'' 5 (Read_data []), Ev_read ''stderr'' 7 (Read_data []),
         Ev_command_timedout False])"
  by (simp add: sample_defs variant_defs loop_defs)

lemma world_facts:
  "vfork_r sample_world = 4242" "vfork_r expired_world = 4242"
  "timeout sample_request = 0" "timeout timed_request = 5"
  "options sample_request = {merge_environment}"
  "char_is_signed sample_world" "char_is_signed loud_world" "char_is_signed unlaunched_world"
  "sp_captured sample_processor = (\<lambda>s. s)" "sp_captured stopping_processor = (\<lambda>s. s)"
  by (simp_all add: sample_defs variant_defs)


lemma expired_run:
  "execute expired_world sample_processor timed_request
     = (Some (Inl (Timeout_exception
                     (''command timed out after '' @ show_nat 5 @ '' seconds.'') 4242)),
        sample_prefix None @ [Ev_sigaction (Ok ()), Ev_setitimer 5 (Ok ())]
          @ [Ev_command_timedout False, Ev_select [5, 7] [] True (Select_failed EINTR),
             Ev_timer_handler, Ev_command_timedout True, Ev_timer_reset,
             Ev_kill (- 4242) SIGKILL, Ev_waitpid 4242 (Ok 0x300)])"
  unfolding execute_thrown [OF start_timed timer_sample(4) loop_expired]
  by (simp add: sample_defs variant_defs reap_defs)

lemma late_run:
  "execute late_world stopping_processor timed_request
     = (Some (Inr \<lparr>success = False, output_text = ''hello'', error_text = [], exit_code = 3\<rparr>),
        sample_prefix None @ [Ev_sigaction (Ok ()), Ev_setitimer 5 (Ok ())]
          @ [Ev_command_timedout False, Ev_select [5, 7] [] True (Select_ready [5] []),
             Ev_read ''stdout'' 5 (Read_data ''hello''), Ev_callback ''stdout'' ''hello'' False,
             Ev_timer_handler, Ev_waitpid 4242 (Ok 0x300), Ev_timer_reset])"
  unfolding execute_returned [OF start_late timer_sample(5) loop_late]
  by (simp add: sample_defs variant_defs reap_defs)

lemma loud_run:
  "fst (execute loud_world sample_processor sample_request)
     = Some (Inr \<lparr>success = False, output_text = ''hello'', error_text = [],
                  exit_code = - 56\<rparr>)"
  unfolding execute_returned [OF start_loud timer_sample(2) loop_loud]
  by (simp add: sample_defs variant_defs reap_defs)

lemma unlaunched_run:
  "execute unlaunched_world sample_processor sample_request
     = (Some (Inr \<lparr>success = False, output_text = [], error_text = [], exit_code = 2\<rparr>),
        sample_prefix (Some 2) @
        [Ev_exit 2,
         Ev_command_timedout False, Ev_select [5, 7] [] False (Select_ready [5, 7] []),
         Ev_read ''stdout'' 5 (Read_data []), Ev_read ''stderr'' 7 (Read_data []),
         Ev_command_timedout False, Ev_waitpid 4242 (Ok 0x200)])"
  unfolding execute_returned [OF start_unlaunched timer_sample(3) loop_unlaunched]
  by (simp add: sample_defs variant_defs reap_defs)

subsection \<open>The claims on the sample runs\<close>

text \<open>
  In the expired run the signal interrupts the first wait, the flag is tested at the head
  of the next turn, and the timeout exception with the child's identifier 4242 is thrown.
\<close>

theorem timeout_raised_at_next_test_witness:
  "fst (execute expired_world sample_processor timed_request)
     = Some (Inl (Timeout_exception
                    (''command timed out after '' @ show_nat 5 @ '' seconds.'') 4242))"
proof -
  have h: "tested_after_handler (snd (execute expired_world sample_processor timed_request))"
    by (simp add: expired_run sample_prefix_def)
  show ?thesis
    using timeout_raised_at_next_test [OF h]
    by (simp add: world_facts size_t_of_pid_def)
qed

text \<open>
  Claim C6 as stated fails where the timer expires in the turn that ends the loop: a
  timeout of 5 seconds is requested, the signal handler runs in the turn in which the
  stdout callback answers \<open>false\<close>, and the caller gets an ordinary result.
\<close>

theorem lost_timeout_counterexample:
  "timeout timed_request = 5
   \<and> Ev_timer_handler \<in> set (snd (execute late_world stopping_processor timed_request))
   \<and> fst (execute late_world stopping_processor timed_request)
       = Some (Inr \<lparr>success = False, output_text = ''hello'', error_text = [], exit_code = 3\<rparr>)"
  by (simp add: late_run world_facts)



text \<open>The sample run, where the child exits with 3.\<close>

theorem normal_exit_status_witness:
  "fst (execute sample_world sample_processor sample_request)
     = Some (Inr \<lparr>success = False, output_text = ''hello'', error_text = [], exit_code = 3\<rparr>)"
proof -
  have w: "waitpid_r sample_world Image_replaced = Ok 0x300"
    by (simp add: waitpid_r_def sample_world_def)
  have x: "WIFEXITED (0x300 :: 32 word)" by (simp add: WIFEXITED_def WTERMSIG_def)
  have v: "WEXITSTATUS (0x300 :: 32 word) = 3" by (simp add: WEXITSTATUS_def)
  show ?thesis
    using normal_exit_status [OF start_sample timer_sample(1) loop_sample w x]
    by (simp add: Let_def v world_facts static_cast_char_def)
qed

text \<open>
  Claim C4 as stated fails where \<open>char\<close> is signed: the child exits normally with code
  200 and the result carries the status -56.
\<close>

theorem narrowed_status_counterexample:
  "waitpid_r loud_world Image_replaced = Ok 0xC800
   \<and> WIFEXITED (0xC800 :: 32 word) \<and> WEXITSTATUS (0xC800 :: 32 word) = 200
   \<and> fst (execute loud_world sample_processor sample_request)
       = Some (Inr \<lparr>success = False, output_text = ''hello'', error_text = [],
                    exit_code = - 56\<rparr>)"
proof -
  have "waitpid_r loud_world Image_replaced = Ok 0xC800"
    by (simp add: waitpid_r_def loud_world_def sample_world_def)
  moreover have "WIFEXITED (0xC800 :: 32 word)" "WEXITSTATUS (0xC800 :: 32 word) = 200"
    by (simp_all add: WIFEXITED_def WTERMSIG_def WEXITSTATUS_def)
  ultimately show ?thesis by (simp add: loud_run)
qed

text \<open>The run in which \<open>execve\<close> fails with \<open>errno\<close> 2.\<close>

theorem launch_failure_is_an_exit_status_witness:
  "fst (execute unlaunched_world sample_processor sample_request)
     = Some (Inr \<lparr>success = False, output_text = [], error_text = [], exit_code = 2\<rparr>)"
proof -
  have h: "setpgid_r unlaunched_world = Ok ()" "dup2_stdin_r unlaunched_world = Ok ()"
    "dup2_stdout_r unlaunched_world = Ok ()" "dup2_stderr_r unlaunched_world = Ok ()"
    "execve_r unlaunched_world = Some 2" "waitpid_errno unlaunched_world = None"
    by (simp_all add: unlaunched_world_def sample_world_def)
  show ?thesis
    using launch_failure_is_an_exit_status
      [OF start_unlaunched h(1-5) timer_sample(3) loop_unlaunched h(6)]
    by (simp add: Let_def world_facts static_cast_char_def)
qed

text \<open>
  Claim C2 as stated fails: the child is created, \<open>execve\<close> fails, and the caller gets
  an ordinary result with status 2 and no exception.
\<close>

theorem launch_failure_counterexample:
  "execve_r unlaunched_world = Some 2
   \<and> Ev_vfork 4242 \<in> set (snd (execute unlaunched_world sample_processor sample_request))
   \<and> Ev_execve ''/bin/prog'' [''prog'', ''-x'']
        [''PATH=/usr/bin:/bin'', ''FOO=parent'', ''FOO=caller'', ''LC_ALL=C'', ''LANG=C'']
        (Some 2)
       \<in> set (snd (execute unlaunched_world sample_processor sample_request))
   \<and> fst (execute unlaunched_world sample_processor sample_request)
       = Some (Inr \<lparr>success = False, output_text = [], error_text = [], exit_code = 2\<rparr>)"
proof -
  have "execve_r unlaunched_world = Some 2"
    by (simp add: unlaunched_world_def sample_world_def)
  then show ?thesis by (simp add: unlaunched_run sample_prefix_def)
qed

end
